theory Spec2Isabelle
  imports Main "HOL-Library.Char_ord" "HOL-Library.List_Lexorder" "HOL-Library.AList"
begin

section \<open>The CarGarage contract (garage/cars/controller.ts)\<close>

text \<open>
  The contract keeps one JSON text per car in the ledger's world state, under the car's
  \<^verbatim>\<open>ID\<close>. Its seven transactions and \<^verbatim>\<open>AssetGarageCarExists\<close> are embedded below as
  functions over an explicit world state. What the controller calls and does not define
  is modelled first: the language's \<^verbatim>\<open>JSON.parse\<close> and \<^verbatim>\<open>JSON.stringify\<close>, the packages
  \<^verbatim>\<open>sort-keys-recursive\<close> and \<^verbatim>\<open>json-stringify-deterministic\<close>, and the ledger stub.

  Scope of the model of JavaScript values and JSON text:
  \<^item> text is a list of 8-bit characters, read as the code units U+0000 to U+00FF; a
    \<^verbatim>\<open>\u\<close> escape that names a larger code unit is not parsed;
  \<^item> numbers are the integers, written in decimal; a numeral with a fraction or an
    exponent is not parsed (the numeric fields of a car, \<^verbatim>\<open>Year\<close> and \<^verbatim>\<open>Mileage\<close>, are
    integers), and no integer is rounded;
  \<^item> an object is the list of its properties in insertion order, with one entry per
    name; a name that is an array index keeps its place in that order (the language lists
    such names first, which shows only in the order \<^verbatim>\<open>JSON.stringify\<close> writes them).

  A transaction that parses its input is described for the inputs the model parses. A
  stored text may be any text, so the theorem about \<^verbatim>\<open>GetAllGarageCars\<close> carries the
  scope as a hypothesis on the stored texts, \<open>within_model\<close> below.
\<close>

subsection \<open>JavaScript values\<close>

datatype json =
    JUndefined
  | JNull
  | JBool bool
  | JNum int
  | JStr string
  | JArr "json list"
  | JObj "(string \<times> json) list"

abbreviation DQ :: char where "DQ \<equiv> CHR 0x22"
abbreviation BS :: char where "BS \<equiv> CHR 0x5C"

text \<open>Reading a property: \<^verbatim>\<open>undefined\<close> when the value has no property of that name.\<close>

fun get_property :: "json \<Rightarrow> string \<Rightarrow> json" where
  "get_property (JObj kvs) k = (case map_of kvs k of None \<Rightarrow> JUndefined | Some v \<Rightarrow> v)"
| "get_property v k = JUndefined"

subsection \<open>Writing JSON text\<close>

definition hex_digit :: "nat \<Rightarrow> char" where
  "hex_digit d = (if d < 10 then char_of (48 + d) else char_of (87 + d))"

text \<open>
  The quoting of \<^verbatim>\<open>JSON.stringify\<close>: the quote and the backslash are escaped, a control
  character gets its short escape or \<^verbatim>\<open>\u00xx\<close>, every other character stands for itself.
\<close>

definition escape_char :: "char \<Rightarrow> string" where
  "escape_char c =
     (if c = DQ then [BS, DQ]
      else if c = BS then [BS, BS]
      else if c = CHR 0x08 then [BS, CHR ''b'']
      else if c = CHR 0x09 then [BS, CHR ''t'']
      else if c = CHR 0x0A then [BS, CHR ''n'']
      else if c = CHR 0x0C then [BS, CHR ''f'']
      else if c = CHR 0x0D then [BS, CHR ''r'']
      else if (of_char c :: nat) < 32 then
        [BS, CHR ''u'', CHR ''0'', CHR ''0'', hex_digit (of_char c div 16), hex_digit (of_char c mod 16)]
      else [c])"

definition quote :: "string \<Rightarrow> string" where
  "quote s = DQ # concat (map escape_char s) @ [DQ]"

function digits :: "nat \<Rightarrow> string" where
  "digits n = (if n < 10 then [char_of (48 + n)] else digits (n div 10) @ [char_of (48 + n mod 10)])"
  by pat_completeness auto
termination
  by (relation "measure id") auto

declare digits.simps [simp del]

definition number_text :: "int \<Rightarrow> string" where
  "number_text i = (if i < 0 then CHR ''-'' # digits (nat (- i)) else digits (nat i))"

fun join_comma :: "string list \<Rightarrow> string" where
  "join_comma [] = []"
| "join_comma [x] = x"
| "join_comma (x # y # ys) = x @ CHR '','' # join_comma (y # ys)"

text \<open>
  \<^verbatim>\<open>JSON.stringify\<close>, as \<^verbatim>\<open>GetAllGarageCars\<close> calls it: properties in the order of the
  object, a property whose value is \<^verbatim>\<open>undefined\<close> left out, \<^verbatim>\<open>undefined\<close> in an array
  written \<^verbatim>\<open>null\<close>, and no text at all for \<^verbatim>\<open>undefined\<close> itself.
\<close>

fun JSON_stringify :: "json \<Rightarrow> string option" where
  "JSON_stringify JUndefined = None"
| "JSON_stringify JNull = Some ''null''"
| "JSON_stringify (JBool b) = Some (if b then ''true'' else ''false'')"
| "JSON_stringify (JNum n) = Some (number_text n)"
| "JSON_stringify (JStr s) = Some (quote s)"
| "JSON_stringify (JArr xs) =
     Some (''['' @ join_comma (map (\<lambda>x. case JSON_stringify x of None \<Rightarrow> ''null'' | Some t \<Rightarrow> t) xs) @ '']'')"
| "JSON_stringify (JObj kvs) =
     Some (''{'' @ join_comma (concat (map
        (\<lambda>(k, v). case JSON_stringify v of None \<Rightarrow> [] | Some t \<Rightarrow> [quote k @ '':'' @ t]) kvs)) @ ''}'')"

subsection \<open>The canonical encoder\<close>

text \<open>
  Modelled from the spec: the package \<^verbatim>\<open>sort-keys-recursive\<close> is not in the repository.
  Section 4.1: the encoder "recursively reorders all object-like substructures by sorting
  their field names using a consistent ordinal (e.g., lexicographic by code point)";
  "arrays preserve element order". Names are compared as lists of code units.
\<close>

fun sortKeysRecursive :: "json \<Rightarrow> json" where
  "sortKeysRecursive (JArr xs) = JArr (map sortKeysRecursive xs)"
| "sortKeysRecursive (JObj kvs) =
     JObj (sort_key fst (map (\<lambda>(k, v). (k, sortKeysRecursive v)) kvs))"
| "sortKeysRecursive v = v"

text \<open>
  Modelled from the spec: the package \<^verbatim>\<open>json-stringify-deterministic\<close> is not in the
  repository. Section 4.1: the encoder "serializes using a single fixed textual
  number/string/boolean/null representation (no alternate escaping, no insignificant
  whitespace)"; the controller's comment at each write: "we insert data in alphabetic
  order using 'json-stringify-deterministic' and 'sort-keys-recursive'". It is
  \<^verbatim>\<open>JSON.stringify\<close> with the properties of every object taken in the order of their names.
\<close>

fun stringify :: "json \<Rightarrow> string option" where
  "stringify JUndefined = None"
| "stringify JNull = Some ''null''"
| "stringify (JBool b) = Some (if b then ''true'' else ''false'')"
| "stringify (JNum n) = Some (number_text n)"
| "stringify (JStr s) = Some (quote s)"
| "stringify (JArr xs) =
     Some (''['' @ join_comma (map (\<lambda>x. case stringify x of None \<Rightarrow> ''null'' | Some t \<Rightarrow> t) xs) @ '']'')"
| "stringify (JObj kvs) =
     Some (''{'' @ join_comma (concat (map
        (\<lambda>(k, v). case stringify v of None \<Rightarrow> [] | Some t \<Rightarrow> [quote k @ '':'' @ t])
        (sort_key fst kvs))) @ ''}'')"

text \<open>
  The expression \<^verbatim>\<open>stringify(sortKeysRecursive(asset))\<close> that stands before every
  \<^verbatim>\<open>putState\<close> of the controller (lines 54, 82, 120, 159).
\<close>

definition Encode :: "json \<Rightarrow> string option" where
  "Encode v = stringify (sortKeysRecursive v)"

subsection \<open>Reading JSON text\<close>

text \<open>
  Modelled from the spec: \<^verbatim>\<open>JSON.parse\<close> is the language's own and not in the repository;
  section 4.1 calls it "a separate, ordinary deserialization step". The grammar is that of
  JSON (ECMA-404), within the scope given above. A name that occurs twice in an object
  keeps its first position and its last value.
\<close>

definition is_ws :: "char \<Rightarrow> bool" where
  "is_ws c = (c = CHR 0x20 \<or> c = CHR 0x09 \<or> c = CHR 0x0A \<or> c = CHR 0x0D)"

fun skip_ws :: "string \<Rightarrow> string" where
  "skip_ws [] = []"
| "skip_ws (c # cs) = (if is_ws c then skip_ws cs else c # cs)"

definition hex_val :: "char \<Rightarrow> nat option" where
  "hex_val c =
     (let n = (of_char c :: nat) in
      if 48 \<le> n \<and> n \<le> 57 then Some (n - 48)
      else if 97 \<le> n \<and> n \<le> 102 then Some (n - 87)
      else if 65 \<le> n \<and> n \<le> 70 then Some (n - 55)
      else None)"

definition hex4 :: "char \<Rightarrow> char \<Rightarrow> char \<Rightarrow> char \<Rightarrow> nat option" where
  "hex4 a b c d =
     (case (hex_val a, hex_val b, hex_val c, hex_val d) of
        (Some x, Some y, Some z, Some w) \<Rightarrow> Some (((x * 16 + y) * 16 + z) * 16 + w)
      | _ \<Rightarrow> None)"

definition unescape :: "char \<Rightarrow> char option" where
  "unescape e =
     (if e = DQ then Some DQ
      else if e = BS then Some BS
      else if e = CHR ''/'' then Some (CHR ''/'')
      else if e = CHR ''b'' then Some (CHR 0x08)
      else if e = CHR ''f'' then Some (CHR 0x0C)
      else if e = CHR ''n'' then Some (CHR 0x0A)
      else if e = CHR ''r'' then Some (CHR 0x0D)
      else if e = CHR ''t'' then Some (CHR 0x09)
      else None)"

text \<open>The characters of a string after its opening quote, and the text after its closing quote.\<close>

fun parse_string :: "string \<Rightarrow> (string \<times> string) option" where
  "parse_string [] = None"
| "parse_string (c # cs) =
     (if c = DQ then Some ([], cs)
      else if c = BS then
        (case cs of
           [] \<Rightarrow> None
         | e # r \<Rightarrow>
             if e = CHR ''u'' then
               (case r of
                  h1 # h2 # h3 # h4 # r' \<Rightarrow>
                    (case hex4 h1 h2 h3 h4 of
                       None \<Rightarrow> None
                     | Some n \<Rightarrow>
                         if n < 256 then
                           (case parse_string r' of
                              None \<Rightarrow> None
                            | Some (t, r'') \<Rightarrow> Some (char_of n # t, r''))
                         else None)
                | _ \<Rightarrow> None)
             else
               (case unescape e of
                  None \<Rightarrow> None
                | Some d \<Rightarrow>
                    (case parse_string r of
                       None \<Rightarrow> None
                     | Some (t, r') \<Rightarrow> Some (d # t, r'))))
      else if (of_char c :: nat) < 32 then None
      else (case parse_string cs of
              None \<Rightarrow> None
            | Some (t, r) \<Rightarrow> Some (c # t, r)))"

definition is_digit :: "char \<Rightarrow> bool" where
  "is_digit c = (48 \<le> (of_char c :: nat) \<and> (of_char c :: nat) \<le> 57)"

definition digits_value :: "string \<Rightarrow> nat" where
  "digits_value ds = foldl (\<lambda>a c. 10 * a + (of_char c - 48)) 0 ds"

definition parse_number :: "string \<Rightarrow> (json \<times> string) option" where
  "parse_number s =
     (let neg = (s \<noteq> [] \<and> hd s = CHR ''-'');
          s1 = (if neg then tl s else s);
          ds = takeWhile is_digit s1;
          r = dropWhile is_digit s1
      in if ds = [] then None
         else if hd ds = CHR ''0'' \<and> tl ds \<noteq> [] then None
         else if r \<noteq> [] \<and> (hd r = CHR ''.'' \<or> hd r = CHR ''e'' \<or> hd r = CHR ''E'') then None
         else Some (JNum (if neg then - int (digits_value ds) else int (digits_value ds)), r))"

definition parse_scalar :: "string \<Rightarrow> (json \<times> string) option" where
  "parse_scalar s =
     (if take 4 s = ''null'' then Some (JNull, drop 4 s)
      else if take 4 s = ''true'' then Some (JBool True, drop 4 s)
      else if take 5 s = ''false'' then Some (JBool False, drop 5 s)
      else parse_number s)"

definition object_of :: "(string \<times> json) list \<Rightarrow> (string \<times> json) list" where
  "object_of m = foldl (\<lambda>obj (k, v). AList.update k v obj) [] m"

lemma skip_ws_length: "length (skip_ws s) \<le> length s"
  by (induction s) auto

lemma skip_ws_Cons_length: "skip_ws s = c # r \<Longrightarrow> length r < length s"
  using skip_ws_length [of s] by simp

lemma parse_string_length: "parse_string s = Some (t, r) \<Longrightarrow> length r < length s"
  by (induction s arbitrary: t r rule: parse_string.induct)
     (fastforce split: if_splits list.splits option.splits)+

text \<open>
  The parser of values, of the elements of an array after its bracket and of the members
  of an object after its brace. The recursion is on the length of the text: the two
  tests \<open>length r' < length s\<close> and \<open>length r4 < length s\<close> say that what a value left
  over is shorter than the text it was read from. They always hold
  (\<open>parse_value_shorter\<close> below), and \<open>parse_elements_unguarded\<close> and
  \<open>parse_members_unguarded\<close> give the equations without them.
\<close>

function parse_value :: "string \<Rightarrow> (json \<times> string) option"
  and parse_elements :: "string \<Rightarrow> (json list \<times> string) option"
  and parse_members :: "string \<Rightarrow> ((string \<times> json) list \<times> string) option"
where
  "parse_value s =
     (case skip_ws s of
        [] \<Rightarrow> None
      | c # r \<Rightarrow>
          if c = CHR ''{'' then
            (case skip_ws r of
               [] \<Rightarrow> None
             | c' # r' \<Rightarrow>
                 if c' = CHR ''}'' then Some (JObj [], r')
                 else (case parse_members (c' # r') of
                         None \<Rightarrow> None
                       | Some (m, r'') \<Rightarrow> Some (JObj (object_of m), r'')))
          else if c = CHR ''['' then
            (case skip_ws r of
               [] \<Rightarrow> None
             | c' # r' \<Rightarrow>
                 if c' = CHR '']'' then Some (JArr [], r')
                 else (case parse_elements (c' # r') of
                         None \<Rightarrow> None
                       | Some (vs, r'') \<Rightarrow> Some (JArr vs, r'')))
          else if c = DQ then
            (case parse_string r of
               None \<Rightarrow> None
             | Some (t, r') \<Rightarrow> Some (JStr t, r'))
          else parse_scalar (c # r))"
| "parse_elements s =
     (case parse_value s of
        None \<Rightarrow> None
      | Some (v, r) \<Rightarrow>
          (case skip_ws r of
             [] \<Rightarrow> None
           | c # r' \<Rightarrow>
               if c = CHR '','' then
                 (if length r' < length s then
                    (case parse_elements r' of
                       None \<Rightarrow> None
                     | Some (vs, r'') \<Rightarrow> Some (v # vs, r''))
                  else None)
               else if c = CHR '']'' then Some ([v], r')
               else None))"
| "parse_members s =
     (case skip_ws s of
        [] \<Rightarrow> None
      | c # r \<Rightarrow>
          if c \<noteq> DQ then None
          else
            (case parse_string r of
               None \<Rightarrow> None
             | Some (k, r1) \<Rightarrow>
                 (case skip_ws r1 of
                    [] \<Rightarrow> None
                  | c1 # r2 \<Rightarrow>
                      if c1 \<noteq> CHR '':'' then None
                      else
                        (case parse_value r2 of
                           None \<Rightarrow> None
                         | Some (v, r3) \<Rightarrow>
                             (case skip_ws r3 of
                                [] \<Rightarrow> None
                              | c3 # r4 \<Rightarrow>
                                  if c3 = CHR '','' then
                                    (if length r4 < length s then
                                       (case parse_members r4 of
                                          None \<Rightarrow> None
                                        | Some (m, r5) \<Rightarrow> Some ((k, v) # m, r5))
                                     else None)
                                  else if c3 = CHR ''}'' then Some ([(k, v)], r4)
                                  else None)))))"
  by pat_completeness auto
termination
  apply (relation "measure (\<lambda>x. case x of
            Inl s \<Rightarrow> 2 * length s
          | Inr (Inl s) \<Rightarrow> 2 * length s + 1
          | Inr (Inr s) \<Rightarrow> 2 * length s + 1)")
  apply (auto dest!: skip_ws_Cons_length parse_string_length)
  done

declare parse_value.simps [simp del] parse_elements.simps [simp del] parse_members.simps [simp del]

definition JSON_parse :: "string \<Rightarrow> json option" where
  "JSON_parse s =
     (case parse_value s of
        None \<Rightarrow> None
      | Some (v, r) \<Rightarrow> if skip_ws r = [] then Some v else None)"

subsection \<open>The world state behind the stub\<close>

text \<open>
  Modelled from the spec: the ledger stub (\<^verbatim>\<open>ctx.stub\<close> of fabric-contract-api) is not in
  the repository. Section 4.2: \<open>Get\<close> returns the stored bytes of a key or an absent
  marker, \<open>Put\<close> upserts, \<open>Delete\<close> removes, and a range scan with two empty bounds
  produces all entries in key order. The controller reads the absent marker as an empty
  buffer (\<^verbatim>\<open>assetJSON.length === 0\<close>), so the world state is a function from keys to
  texts in which the empty text stands for no entry. A failed transaction commits none
  of its writes; the functions below still return the state their writes had reached, so
  that "no write before the failure" is a statement about them.
\<close>

type_synonym world_state = "string \<Rightarrow> string"

definition getState :: "world_state \<Rightarrow> string \<Rightarrow> string" where
  "getState st k = st k"

definition putState :: "string \<Rightarrow> string \<Rightarrow> world_state \<Rightarrow> world_state" where
  "putState k v st = st(k := v)"

definition deleteState :: "string \<Rightarrow> world_state \<Rightarrow> world_state" where
  "deleteState k st = st(k := [])"

text \<open>The world state of a ledger nothing was written to.\<close>

definition empty_state :: world_state where
  "empty_state = (\<lambda>k. [])"

definition stored_keys :: "world_state \<Rightarrow> string set" where
  "stored_keys st = {k. st k \<noteq> []}"

definition getStateByRange_all :: "world_state \<Rightarrow> (string \<times> string) list" where
  "getStateByRange_all st = map (\<lambda>k. (k, st k)) (sorted_list_of_set (stored_keys st))"

subsection \<open>The transactions\<close>

text \<open>
  What a transaction throws. \<open>AlreadyExists id\<close> and \<open>NotFound id\<close> are the two errors
  the controller raises itself ("The asset ... already exists", "The asset ... does not
  exist"); \<open>SyntaxError\<close> is \<^verbatim>\<open>JSON.parse\<close> on text that is not JSON; \<open>TypeError\<close> is
  the language's own (destructuring \<^verbatim>\<open>null\<close>, a property of \<^verbatim>\<open>null\<close>, a property
  written on a primitive in strict mode, a value with no text put into a message).
  \<open>KeyNotString\<close> stands only in the loop of \<^verbatim>\<open>InitGarageCarLedger\<close>, for an asset of
  its list whose \<^verbatim>\<open>ID\<close> is no string; the list of the source has none.
\<close>

datatype error =
    AlreadyExists string
  | NotFound string
  | SyntaxError
  | TypeError
  | KeyNotString

text \<open>
  The text of a value inside a template literal, as \<^verbatim>\<open>${ID}\<close> in the two messages below:
  the language's \<^verbatim>\<open>ToString\<close>. An array is its elements joined by commas, with nothing
  for \<^verbatim>\<open>null\<close> and \<^verbatim>\<open>undefined\<close>; an object is \<^verbatim>\<open>[object Object]\<close>, unless it has a
  property \<^verbatim>\<open>toString\<close> of its own, which is no function, and then the conversion
  throws a \<^verbatim>\<open>TypeError\<close> (the value \<open>None\<close>).
\<close>

fun to_String :: "json \<Rightarrow> string option" where
  "to_String JUndefined = Some ''undefined''"
| "to_String JNull = Some ''null''"
| "to_String (JBool b) = Some (if b then ''true'' else ''false'')"
| "to_String (JNum n) = Some (number_text n)"
| "to_String (JStr s) = Some s"
| "to_String (JArr xs) =
     map_option join_comma
       (those (map (\<lambda>x. if x = JUndefined \<or> x = JNull then Some [] else to_String x) xs))"
| "to_String (JObj kvs) =
     (if ''toString'' \<in> fst ` set kvs then None else Some ''[object Object]'')"

text \<open>
  The errors with the messages \<^verbatim>\<open>The asset ${ID} already exists\<close> and
  \<^verbatim>\<open>The asset ${ID} does not exist\<close> that are thrown in \<^verbatim>\<open>CreateGarageCarAsset\<close> and
  \<^verbatim>\<open>UpdateGarageCarAsset\<close>, where \<^verbatim>\<open>ID\<close> is whatever value the input has under that name.
\<close>

definition already_exists :: "json \<Rightarrow> error" where
  "already_exists ID = (case to_String ID of None \<Rightarrow> TypeError | Some t \<Rightarrow> AlreadyExists t)"

definition does_not_exist :: "json \<Rightarrow> error" where
  "does_not_exist ID = (case to_String ID of None \<Rightarrow> TypeError | Some t \<Rightarrow> NotFound t)"

text \<open>
  Modelled from the spec: the key under which the stub reads and writes when
  \<^verbatim>\<open>CreateGarageCarAsset\<close> or \<^verbatim>\<open>UpdateGarageCarAsset\<close> hands it the \<^verbatim>\<open>ID\<close> of the input.
  A string is its own key. The input is not validated, so the \<^verbatim>\<open>ID\<close> may be any value,
  or \<^verbatim>\<open>undefined\<close> when the input has none, and the controller calls \<^verbatim>\<open>getState\<close> and
  \<^verbatim>\<open>putState\<close> with it all the same. In section 4.2 \<open>Get\<close> and \<open>Put\<close> fail on no key;
  which key the stub makes of a value that is no string is decided neither there nor in
  the repository. It is the parameter \<open>key_of\<close> of the two transactions, and every
  theorem about them holds for every \<open>key_of\<close>.
\<close>

definition ledger_key :: "(json \<Rightarrow> string) \<Rightarrow> json \<Rightarrow> string" where
  "ledger_key key_of ID = (case ID of JStr s \<Rightarrow> s | _ \<Rightarrow> key_of ID)"

text \<open>The object literal of lines 69-78 and 107-116.\<close>

definition asset_object ::
  "json \<Rightarrow> json \<Rightarrow> json \<Rightarrow> json \<Rightarrow> json \<Rightarrow> json \<Rightarrow> json \<Rightarrow> json \<Rightarrow> json" where
  "asset_object ID Model Color Owner Year VIN EngineType Mileage =
     JObj [(''ID'', ID), (''Model'', Model), (''Color'', Color), (''Owner'', Owner),
           (''Year'', Year), (''VIN'', VIN), (''EngineType'', EngineType),
           (''Mileage'', Mileage)]"

text \<open>The eight names of that literal, which are the attributes of a car (section 3).\<close>

definition field_names :: "string list" where
  "field_names =
     [''ID'', ''Model'', ''Color'', ''Owner'', ''Year'', ''VIN'', ''EngineType'', ''Mileage'']"

definition AssetGarageCarExists :: "world_state \<Rightarrow> string \<Rightarrow> bool" where
  "AssetGarageCarExists st id' = (let assetJSON = getState st id' in length assetJSON > 0)"

definition CreateGarageCarAsset ::
  "(json \<Rightarrow> string) \<Rightarrow> world_state \<Rightarrow> string \<Rightarrow> world_state \<times> (error + unit)" where
  "CreateGarageCarAsset key_of st json =
     (case JSON_parse json of
        None \<Rightarrow> (st, Inl SyntaxError)
      | Some parsed \<Rightarrow>
          if parsed = JNull then (st, Inl TypeError)
          else
            (let ID = get_property parsed ''ID''
             in if AssetGarageCarExists st (ledger_key key_of ID)
                then (st, Inl (already_exists ID))
                else
                  (case Encode (asset_object ID
                          (get_property parsed ''Model'') (get_property parsed ''Color'')
                          (get_property parsed ''Owner'') (get_property parsed ''Year'')
                          (get_property parsed ''VIN'') (get_property parsed ''EngineType'')
                          (get_property parsed ''Mileage'')) of
                     None \<Rightarrow> (st, Inl TypeError)
                   | Some bytes \<Rightarrow> (putState (ledger_key key_of ID) bytes st, Inr ()))))"

definition ReadGarageCarAsset :: "world_state \<Rightarrow> string \<Rightarrow> error + string" where
  "ReadGarageCarAsset st id' =
     (let assetJSON = getState st id'
      in if length assetJSON = 0 then Inl (NotFound id') else Inr assetJSON)"

definition UpdateGarageCarAsset ::
  "(json \<Rightarrow> string) \<Rightarrow> world_state \<Rightarrow> string \<Rightarrow> world_state \<times> (error + unit)" where
  "UpdateGarageCarAsset key_of st json =
     (case JSON_parse json of
        None \<Rightarrow> (st, Inl SyntaxError)
      | Some parsed \<Rightarrow>
          if parsed = JNull then (st, Inl TypeError)
          else
            (let ID = get_property parsed ''ID''
             in if \<not> AssetGarageCarExists st (ledger_key key_of ID)
                then (st, Inl (does_not_exist ID))
                else
                  (case Encode (asset_object ID
                          (get_property parsed ''Model'') (get_property parsed ''Color'')
                          (get_property parsed ''Owner'') (get_property parsed ''Year'')
                          (get_property parsed ''VIN'') (get_property parsed ''EngineType'')
                          (get_property parsed ''Mileage'')) of
                     None \<Rightarrow> (st, Inl TypeError)
                   | Some bytes \<Rightarrow> (putState (ledger_key key_of ID) bytes st, Inr ()))))"

definition DeleteGarageCarAsset :: "world_state \<Rightarrow> string \<Rightarrow> world_state \<times> (error + unit)" where
  "DeleteGarageCarAsset st id' =
     (if \<not> AssetGarageCarExists st id' then (st, Inl (NotFound id'))
      else (deleteState id' st, Inr ()))"

text \<open>
  \<^verbatim>\<open>TransferGarageCarAsset\<close>: the stored text is parsed, \<^verbatim>\<open>Owner\<close> is read and
  overwritten, and the value is encoded and stored again. On an object the assignment
  replaces the property or adds it last. On an array it adds a named property, which no
  encoder writes. On \<^verbatim>\<open>null\<close> the read throws, on a number, a string or a boolean the
  assignment does (a module is strict code).
\<close>

definition TransferGarageCarAsset ::
  "world_state \<Rightarrow> string \<Rightarrow> string \<Rightarrow> world_state \<times> (error + json)" where
  "TransferGarageCarAsset st id' newOwner =
     (case ReadGarageCarAsset st id' of
        Inl e \<Rightarrow> (st, Inl e)
      | Inr assetString \<Rightarrow>
          (case JSON_parse assetString of
             None \<Rightarrow> (st, Inl SyntaxError)
           | Some asset \<Rightarrow>
               (case asset of
                  JObj kvs \<Rightarrow>
                    (let oldOwner = get_property asset ''Owner'';
                         asset' = JObj (AList.update ''Owner'' (JStr newOwner) kvs)
                     in case Encode asset' of
                          None \<Rightarrow> (st, Inl TypeError)
                        | Some bytes \<Rightarrow> (putState id' bytes st, Inr oldOwner))
                | JArr xs \<Rightarrow>
                    (case Encode asset of
                       None \<Rightarrow> (st, Inl TypeError)
                     | Some bytes \<Rightarrow> (putState id' bytes st, Inr JUndefined))
                | _ \<Rightarrow> (st, Inl TypeError))))"

text \<open>
  The loop of \<^verbatim>\<open>GetAllGarageCars\<close> over the iterator. \<open>decode_entry\<close> is its
  \<^verbatim>\<open>try\<close> block (lines 177-182): the value is parsed, and kept as its text when
  \<^verbatim>\<open>JSON.parse\<close> throws.
\<close>

definition decode_entry :: "string \<Rightarrow> json" where
  "decode_entry strValue =
     (case JSON_parse strValue of Some record \<Rightarrow> record | None \<Rightarrow> JStr strValue)"

fun collect_results :: "(string \<times> string) list \<Rightarrow> json list \<Rightarrow> json list" where
  "collect_results [] allResults = allResults"
| "collect_results ((key, strValue) # rest) allResults =
     collect_results rest (allResults @ [decode_entry strValue])"

definition GetAllGarageCars :: "world_state \<Rightarrow> error + string" where
  "GetAllGarageCars st =
     (case JSON_stringify (JArr (collect_results (getStateByRange_all st) [])) of
        None \<Rightarrow> Inl TypeError
      | Some text \<Rightarrow> Inr text)"

text \<open>The two cars of \<^verbatim>\<open>InitGarageCarLedger\<close>, as the source writes them.\<close>

definition seed_assets :: "json list" where
  "seed_assets =
     [JObj [(''ID'', JStr ''assetcar1''), (''Model'', JStr ''Honda Accord''),
            (''Color'', JStr ''Silver''), (''Owner'', JStr ''Ajith''), (''Year'', JNum 2023),
            (''VIN'', JStr ''AB12CD345671''), (''EngineType'', JStr ''4-cylinder Diesel''),
            (''Mileage'', JNum 10)],
      JObj [(''ID'', JStr ''assetcar2''), (''Model'', JStr ''Toyota Camry''),
            (''Color'', JStr ''White''), (''Owner'', JStr ''Emma''), (''Year'', JNum 2019),
            (''VIN'', JStr ''AB12CD345678''), (''EngineType'', JStr ''6-cylinder Petrol''),
            (''Mileage'', JNum 11)]]"

fun put_assets :: "json list \<Rightarrow> world_state \<Rightarrow> world_state \<times> (error + unit)" where
  "put_assets [] st = (st, Inr ())"
| "put_assets (asset # rest) st =
     (case get_property asset ''ID'' of
        JStr ID \<Rightarrow>
          (case Encode asset of
             None \<Rightarrow> (st, Inl TypeError)
           | Some bytes \<Rightarrow> put_assets rest (putState ID bytes st))
      | _ \<Rightarrow> (st, Inl KeyNotString))"

definition InitGarageCarLedger :: "world_state \<Rightarrow> world_state \<times> (error + unit)" where
  "InitGarageCarLedger st = put_assets seed_assets st"

subsection \<open>JSON values and their canonical form\<close>

text \<open>
  An object of the language has one property per name: \<open>distinct_keys\<close> says so of a
  value, at every depth. \<open>is_json\<close> holds of the values \<^verbatim>\<open>JSON.parse\<close> returns: one
  property per name and \<^verbatim>\<open>undefined\<close> nowhere.
\<close>

fun distinct_keys :: "json \<Rightarrow> bool" where
  "distinct_keys (JArr xs) = (\<forall>x \<in> set xs. distinct_keys x)"
| "distinct_keys (JObj kvs) = (distinct (map fst kvs) \<and> (\<forall>(k, v) \<in> set kvs. distinct_keys v))"
| "distinct_keys v = True"

fun is_json :: "json \<Rightarrow> bool" where
  "is_json JUndefined = False"
| "is_json (JArr xs) = (\<forall>x \<in> set xs. is_json x)"
| "is_json (JObj kvs) = (distinct (map fst kvs) \<and> (\<forall>(k, v) \<in> set kvs. is_json v))"
| "is_json v = True"

text \<open>
  The logical content of a value, which is what the encoding keeps of it: the properties
  whose value is not \<^verbatim>\<open>undefined\<close>, in the order of their names, and \<^verbatim>\<open>null\<close> for
  \<^verbatim>\<open>undefined\<close> in an array.
\<close>

fun canonical :: "json \<Rightarrow> json" where
  "canonical (JArr xs) = JArr (map (\<lambda>x. if x = JUndefined then JNull else canonical x) xs)"
| "canonical (JObj kvs) =
     JObj (map (\<lambda>(k, v). (k, canonical v))
            (filter (\<lambda>(k, v). v \<noteq> JUndefined) (sort_key fst kvs)))"
| "canonical v = v"

text \<open>The text of a value and of a member, and two tests on text that the proofs about the parser use.\<close>

definition text_of :: "json \<Rightarrow> string" where
  "text_of v = (case JSON_stringify v of None \<Rightarrow> ''null'' | Some t \<Rightarrow> t)"

definition member_text :: "string \<times> json \<Rightarrow> string" where
  "member_text = (\<lambda>(k, v). quote k @ '':'' @ text_of v)"

definition start_ok :: "string \<Rightarrow> bool" where
  "start_ok t = (t \<noteq> [] \<and> \<not> is_ws (hd t) \<and> hd t \<noteq> CHR '']'' \<and> hd t \<noteq> CHR ''}'')"

definition value_end :: "string \<Rightarrow> bool" where
  "value_end r = (r = [] \<or> hd r = CHR '','' \<or> hd r = CHR '']'' \<or> hd r = CHR ''}'')"

subsection \<open>Stored text within the scope of the model\<close>

text \<open>
  \<open>JSON_parse\<close> reads a text as \<^verbatim>\<open>JSON.parse\<close> does, one character after the other, but
  for two things it leaves out: a numeral that goes on with a fraction or an exponent,
  and an escape \<^verbatim>\<open>\u\<close> above 00FF; both it refuses. A value it returns is the value of
  the language when every integer in it is one a double holds exactly, and has the
  properties of an object in the order the language enumerates them when no name is an
  array index (those the language moves to the front).

  \<open>within_model\<close> holds of a text on which the two therefore agree. If \<open>JSON_parse\<close>
  returns a value, its integers are within \<open>2 ^ 53\<close> and no name in it is made of digits
  only. If \<open>JSON_parse\<close> refuses the text, the text has no digit followed by a point or
  by the letter e, and no \<^verbatim>\<open>\u\<close>, so that \<^verbatim>\<open>JSON.parse\<close> refuses it as well. The tests
  on the characters err on the side of leaving a text out.
\<close>

fun numeral_goes_on :: "string \<Rightarrow> bool" where
  "numeral_goes_on (c # d # cs) =
     (is_digit c \<and> (d = CHR ''.'' \<or> d = CHR ''e'' \<or> d = CHR ''E'') \<or> numeral_goes_on (d # cs))"
| "numeral_goes_on cs = False"

fun unicode_escape :: "string \<Rightarrow> bool" where
  "unicode_escape (c # d # cs) = (c = BS \<and> d = CHR ''u'' \<or> unicode_escape (d # cs))"
| "unicode_escape cs = False"

definition index_name :: "string \<Rightarrow> bool" where
  "index_name k = (k \<noteq> [] \<and> list_all is_digit k)"

fun plain_value :: "json \<Rightarrow> bool" where
  "plain_value (JNum n) = (\<bar>n\<bar> \<le> 2 ^ 53)"
| "plain_value (JArr xs) = (\<forall>x \<in> set xs. plain_value x)"
| "plain_value (JObj kvs) = (\<forall>(k, v) \<in> set kvs. \<not> index_name k \<and> plain_value v)"
| "plain_value v = True"

definition within_model :: "string \<Rightarrow> bool" where
  "within_model s =
     (case JSON_parse s of
        Some v \<Rightarrow> plain_value v
      | None \<Rightarrow> \<not> numeral_goes_on s \<and> \<not> unicode_escape s)"

subsection \<open>Read as section 4.3 words it\<close>

text \<open>
  Follows the spec's words, not the source: "\<open>Read(id) -> record\<close>: fails with
  \<open>NotFound\<close> if \<open>Get(id)\<close> is absent; otherwise returns the raw stored bytes decoded as
  a record (or as raw text if decoding fails)". It is compared with
  \<open>ReadGarageCarAsset\<close> under C7.
\<close>

definition Read_as_specified :: "world_state \<Rightarrow> string \<Rightarrow> error + json" where
  "Read_as_specified st id' =
     (if st id' = [] then Inl (NotFound id') else Inr (decode_entry (st id')))"

subsection \<open>Example inputs\<close>

text \<open>
  \<open>car7_json\<close> is the text \<^verbatim>\<open>{"Tyres":4,"ID":"car7","Owner":"Ajith"}\<close>: one property that
  is no attribute of a car, and six attributes missing. \<open>car7_parsed\<close> is its value,
  \<open>car7_stored\<close> the text \<^verbatim>\<open>{"ID":"car7","Owner":"Ajith"}\<close>, and \<open>assetcar1_text\<close> the
  encoding of the first seed car. \<open>anon_json\<close> is the text \<^verbatim>\<open>{"Tyres":4,"Owner":"Ajith"}\<close>,
  which has no \<^verbatim>\<open>ID\<close>, and \<open>anon_parsed\<close> its value. \<open>empty_key\<close> is a stub that takes
  every value that is no string for the empty key; the examples run the two transactions
  with it.
\<close>

definition anon_json :: string where
  "anon_json = ''{'' @ quote ''Tyres'' @ '':4,'' @ quote ''Owner'' @ '':'' @ quote ''Ajith'' @ ''}''"

definition anon_parsed :: json where
  "anon_parsed = JObj [(''Tyres'', JNum 4), (''Owner'', JStr ''Ajith'')]"

definition empty_key :: "json \<Rightarrow> string" where
  "empty_key v = []"

definition car7_json :: string where
  "car7_json =
     ''{'' @ quote ''Tyres'' @ '':4,'' @ quote ''ID'' @ '':'' @ quote ''car7'' @ '','' @
     quote ''Owner'' @ '':'' @ quote ''Ajith'' @ ''}''"

definition car7_parsed :: json where
  "car7_parsed = JObj [(''Tyres'', JNum 4), (''ID'', JStr ''car7''), (''Owner'', JStr ''Ajith'')]"

definition car7_stored :: string where
  "car7_stored =
     ''{'' @ quote ''ID'' @ '':'' @ quote ''car7'' @ '','' @
     quote ''Owner'' @ '':'' @ quote ''Ajith'' @ ''}''"

definition assetcar1_text :: string where
  "assetcar1_text =
     ''{'' @ quote ''Color'' @ '':'' @ quote ''Silver'' @ '','' @
     quote ''EngineType'' @ '':'' @ quote ''4-cylinder Diesel'' @ '','' @
     quote ''ID'' @ '':'' @ quote ''assetcar1'' @ '','' @
     quote ''Mileage'' @ '':10,'' @
     quote ''Model'' @ '':'' @ quote ''Honda Accord'' @ '','' @
     quote ''Owner'' @ '':'' @ quote ''Ajith'' @ '','' @
     quote ''VIN'' @ '':'' @ quote ''AB12CD345671'' @ '','' @
     quote ''Year'' @ '':2023}''"

section \<open>The canonical encoding\<close>

lemma sort_key_fst_unique:
  assumes "distinct (map fst xs)" "distinct (map fst ys)" "set xs = set ys"
  shows "sort_key fst xs = sort_key fst ys"
proof (rule map_sorted_distinct_set_unique [where f = fst])
  show "inj_on fst (set (sort_key fst xs) \<union> set (sort_key fst ys))"
    using assms by (simp add: inj_on_def) (metis eq_key_imp_eq_value prod.collapse)
  show "distinct (map fst (sort_key fst xs))"
    using assms(1) by (simp add: distinct_map)
  show "distinct (map fst (sort_key fst ys))"
    using assms(2) by (simp add: distinct_map)
qed (use assms in simp_all)

lemma map_value_keys: "map fst (map (\<lambda>(k, v). (k, f v)) kvs) = map fst kvs"
  by (induction kvs) auto

text \<open>
  C1. Two records with the same field names and the same value under each name, their
  fields inserted in any two orders, have the same encoding: the text that stands before
  every \<^verbatim>\<open>putState\<close> does not depend on the insertion order.
\<close>

theorem Encode_insertion_order:
  assumes "distinct (map fst a)" and "distinct (map fst b)" and "map_of a = map_of b"
  shows "Encode (JObj a) = Encode (JObj b)"
proof -
  have "set a = set b"
    using assms by (simp add: map_of_inject_set)
  then have "set (map (\<lambda>(k, v). (k, sortKeysRecursive v)) a) =
             set (map (\<lambda>(k, v). (k, sortKeysRecursive v)) b)"
    by simp
  moreover have "distinct (map fst (map (\<lambda>(k, v). (k, sortKeysRecursive v)) a))"
    "distinct (map fst (map (\<lambda>(k, v). (k, sortKeysRecursive v)) b))"
    using assms(1,2) by (simp_all only: map_value_keys)
  ultimately have "sort_key fst (map (\<lambda>(k, v). (k, sortKeysRecursive v)) a) =
                   sort_key fst (map (\<lambda>(k, v). (k, sortKeysRecursive v)) b)"
    by (intro sort_key_fst_unique)
  then have "sortKeysRecursive (JObj a) = sortKeysRecursive (JObj b)"
    by simp
  then show ?thesis
    by (simp add: Encode_def)
qed

theorem Encode_insertion_order_witness:
  "distinct (map fst [(''Owner'', JStr ''Ajith''), (''ID'', JStr ''car7'')]) \<and>
   distinct (map fst [(''ID'', JStr ''car7''), (''Owner'', JStr ''Ajith'')]) \<and>
   map_of [(''Owner'', JStr ''Ajith''), (''ID'', JStr ''car7'')] =
     map_of [(''ID'', JStr ''car7''), (''Owner'', JStr ''Ajith'')] \<and>
   Encode (JObj [(''Owner'', JStr ''Ajith''), (''ID'', JStr ''car7'')]) =
     Encode (JObj [(''ID'', JStr ''car7''), (''Owner'', JStr ''Ajith'')]) \<and>
   Encode (JObj [(''Owner'', JStr ''Ajith''), (''ID'', JStr ''car7'')]) = Some car7_stored"
proof -
  have d: "distinct (map fst [(''Owner'', JStr ''Ajith''), (''ID'', JStr ''car7'')])"
    "distinct (map fst [(''ID'', JStr ''car7''), (''Owner'', JStr ''Ajith'')])"
    by simp_all
  have m: "map_of [(''Owner'', JStr ''Ajith''), (''ID'', JStr ''car7'')] =
     map_of [(''ID'', JStr ''car7''), (''Owner'', JStr ''Ajith'')]"
    by (simp add: fun_eq_iff)
  have e: "Encode (JObj [(''Owner'', JStr ''Ajith''), (''ID'', JStr ''car7'')]) = Some car7_stored"
    by code_simp
  show ?thesis
    using d m e Encode_insertion_order [OF d m] by simp
qed

section \<open>Reading back what was written\<close>

subsection \<open>Strings\<close>

lemma of_char_lt_256: "(of_char c :: nat) < 256"
  by (cases c) (simp add: of_char_def)

lemma hex_val_hex_digit: "d < 16 \<Longrightarrow> hex_val (hex_digit d) = Some d"
  by (auto simp: hex_val_def hex_digit_def Let_def)

lemma hex4_control:
  assumes "n < 256"
  shows "hex4 (CHR ''0'') (CHR ''0'') (hex_digit (n div 16)) (hex_digit (n mod 16)) = Some n"
proof -
  have "n div 16 < 16" using assms by simp
  then show ?thesis
    by (simp add: hex4_def hex_val_hex_digit) (simp add: hex_val_def)
qed

lemma parse_string_escape_char:
  assumes "parse_string rest = Some (s, r)"
  shows "parse_string (escape_char c @ rest) = Some (c # s, r)"
proof -
  have u: "char_of (of_char c :: nat) = c" by simp
  show ?thesis
    using assms of_char_lt_256 [of c] hex4_control [of "of_char c"]
    by (auto simp: escape_char_def unescape_def u)
qed

lemma parse_string_body:
  "parse_string (concat (map escape_char s) @ DQ # r) = Some (s, r)"
  by (induction s) (simp_all add: parse_string_escape_char del: parse_string.simps(2), simp)

lemma parse_string_quote: "parse_string (tl (quote s) @ r) = Some (s, r)"
  by (simp add: quote_def parse_string_body)

subsection \<open>Numbers\<close>

lemma is_digit_char_of: "d < 10 \<Longrightarrow> is_digit (char_of (48 + d :: nat))"
  by (simp add: is_digit_def)

lemma digits_all_digit: "list_all is_digit (digits n)"
  by (induction n rule: digits.induct) (subst digits.simps, simp add: is_digit_char_of)

lemma digits_not_Nil: "digits n \<noteq> []"
  by (subst digits.simps) simp

lemma digits_value_snoc: "digits_value (ds @ [c]) = 10 * digits_value ds + (of_char c - 48)"
  by (simp add: digits_value_def)

lemma digits_value_digits: "digits_value (digits n) = n"
proof (induction n rule: digits.induct)
  case (1 n)
  show ?case
  proof (cases "n < 10")
    case True
    then show ?thesis
      by (subst digits.simps) (simp add: digits_value_def)
  next
    case False
    then have "digits_value (digits n) = 10 * digits_value (digits (n div 10)) + n mod 10"
      by (subst digits.simps) (simp add: digits_value_snoc)
    with False 1 show ?thesis by simp
  qed
qed

lemma hd_digits_zero: "hd (digits n) = CHR ''0'' \<Longrightarrow> n = 0"
proof (induction n rule: digits.induct)
  case (1 n)
  show ?case
  proof (cases "n < 10")
    case True
    with 1(2) have "char_of (48 + n) = CHR ''0''"
      by (simp add: digits.simps [of n])
    then have "(of_char (char_of (48 + n) :: char) :: nat) = of_char (CHR ''0'')"
      by simp
    with True show ?thesis by simp
  next
    case False
    then have "hd (digits n) = hd (digits (n div 10))"
      by (subst digits.simps) (simp add: digits_not_Nil)
    with 1 False have "n div 10 = 0" by simp
    with False show ?thesis by simp
  qed
qed

lemma digits_zero: "digits 0 = ''0''"
  by (subst digits.simps) (simp add: char_of_eq_iff)

lemma tl_digits_zero: "hd (digits n) = CHR ''0'' \<Longrightarrow> tl (digits n) = []"
  using hd_digits_zero [of n] by (auto simp: digits_zero)

lemma hd_digits_digit: "is_digit (hd (digits n))"
  using digits_all_digit [of n] digits_not_Nil [of n]
  by (cases "digits n") simp_all

lemma value_end_not_digit: "value_end r \<Longrightarrow> r \<noteq> [] \<Longrightarrow> \<not> is_digit (hd r)"
  by (auto simp: value_end_def is_digit_def)

lemma takeWhile_digits:
  assumes "value_end r"
  shows "takeWhile is_digit (digits n @ r) = digits n"
    and "dropWhile is_digit (digits n @ r) = r"
proof -
  have a: "\<And>x. x \<in> set (digits n) \<Longrightarrow> is_digit x"
    using digits_all_digit [of n] by (simp add: list_all_iff)
  have b: "takeWhile is_digit r = []" "dropWhile is_digit r = r"
    using value_end_not_digit [OF assms] by (cases r; simp)+
  show "takeWhile is_digit (digits n @ r) = digits n"
    using a b by (simp add: takeWhile_append2)
  show "dropWhile is_digit (digits n @ r) = r"
    using a b by (simp add: dropWhile_append2)
qed

lemma parse_number_digits:
  assumes "value_end r"
  shows "parse_number (digits n @ r) = Some (JNum (int n), r)"
proof -
  have "hd (digits n @ r) \<noteq> CHR ''-''"
    using hd_digits_digit [of n] digits_not_Nil [of n] by (auto simp: is_digit_def)
  moreover have "r \<noteq> [] \<Longrightarrow> hd r \<noteq> CHR ''.'' \<and> hd r \<noteq> CHR ''e'' \<and> hd r \<noteq> CHR ''E''"
    using assms by (auto simp: value_end_def)
  ultimately show ?thesis
    using takeWhile_digits [OF assms, of n] digits_not_Nil [of n] tl_digits_zero [of n]
    by (auto simp: parse_number_def Let_def digits_value_digits)
qed

lemma parse_number_text:
  assumes "value_end r"
  shows "parse_number (number_text i @ r) = Some (JNum i, r)"
proof (cases "i < 0")
  case False
  then show ?thesis
    using parse_number_digits [OF assms, of "nat i"] by (simp add: number_text_def)
next
  case True
  have "r \<noteq> [] \<Longrightarrow> hd r \<noteq> CHR ''.'' \<and> hd r \<noteq> CHR ''e'' \<and> hd r \<noteq> CHR ''E''"
    using assms by (auto simp: value_end_def)
  then show ?thesis
    using True takeWhile_digits [OF assms, of "nat (- i)"] digits_not_Nil [of "nat (- i)"]
      tl_digits_zero [of "nat (- i)"]
    by (auto simp: parse_number_def Let_def digits_value_digits number_text_def)
qed

lemma hd_number_text: "hd (number_text i) = CHR ''-'' \<or> is_digit (hd (number_text i))"
  by (simp add: number_text_def hd_digits_digit)

lemma number_text_not_Nil: "number_text i \<noteq> []"
  by (simp add: number_text_def digits_not_Nil)

lemma parse_scalar_number_text:
  assumes "value_end r"
  shows "parse_scalar (number_text i @ r) = Some (JNum i, r)"
proof -
  obtain c cs where t: "number_text i = c # cs"
    using number_text_not_Nil [of i] by (cases "number_text i") auto
  with hd_number_text [of i] have "c = CHR ''-'' \<or> is_digit c" by simp
  then have "c \<noteq> CHR ''n''" "c \<noteq> CHR ''t''" "c \<noteq> CHR ''f''"
    by (auto simp: is_digit_def)
  then have "parse_scalar (number_text i @ r) = parse_number (number_text i @ r)"
    by (simp add: parse_scalar_def t)
  then show ?thesis
    by (simp add: parse_number_text [OF assms])
qed

subsection \<open>Values\<close>

lemma JSON_stringify_None: "JSON_stringify v = None \<longleftrightarrow> v = JUndefined"
  by (cases v) simp_all

lemma JSON_stringify_text_of: "v \<noteq> JUndefined \<Longrightarrow> JSON_stringify v = Some (text_of v)"
  by (cases v) (simp_all add: text_of_def)

lemma text_of_JArr: "text_of (JArr xs) = ''['' @ join_comma (map text_of xs) @ '']''"
  by (simp add: text_of_def [abs_def])

lemma members_defined:
  "\<forall>(k, v) \<in> set kvs. v \<noteq> JUndefined \<Longrightarrow>
   concat (map (\<lambda>(k, v). case JSON_stringify v of None \<Rightarrow> [] | Some t \<Rightarrow> [quote k @ '':'' @ t]) kvs) =
   map member_text kvs"
  by (induction kvs) (auto simp: member_text_def JSON_stringify_text_of)

lemma text_of_JObj:
  "\<forall>(k, v) \<in> set kvs. v \<noteq> JUndefined \<Longrightarrow>
   text_of (JObj kvs) = ''{'' @ join_comma (map member_text kvs) @ ''}''"
  by (simp add: text_of_def members_defined)

lemma start_ok_text_of: "start_ok (text_of v)"
proof (cases v)
  case (JNum i)
  then show ?thesis
    using hd_number_text [of i] number_text_not_Nil [of i]
    by (auto simp: text_of_def start_ok_def is_ws_def is_digit_def)
qed (simp_all add: text_of_def start_ok_def is_ws_def quote_def)

lemma skip_ws_start_ok: "start_ok t \<Longrightarrow> skip_ws (t @ r) = t @ r"
  by (cases t) (simp_all add: start_ok_def)

lemma start_ok_join:
  "xs \<noteq> [] \<Longrightarrow> start_ok (hd xs) \<Longrightarrow> start_ok (join_comma xs @ r)"
  by (induction xs rule: join_comma.induct) (auto simp: start_ok_def)

lemma value_end_simps [simp]:
  "value_end []" "value_end (CHR '','' # r)" "value_end (CHR '']'' # r)" "value_end (CHR ''}'' # r)"
  by (simp_all add: value_end_def)

lemma parse_elements_join:
  assumes "\<forall>x \<in> set xs. \<forall>r. value_end r \<longrightarrow> parse_value (text_of x @ r) = Some (x, r)"
    and "xs \<noteq> []"
  shows "parse_elements (join_comma (map text_of xs) @ CHR '']'' # r) = Some (xs, r)"
  using assms(2,1)
proof (induction xs rule: list_nonempty_induct)
  case (single x)
  then have "parse_value (text_of x @ CHR '']'' # r) = Some (x, CHR '']'' # r)"
    by simp
  then show ?case
    by (subst parse_elements.simps) (simp add: is_ws_def)
next
  case (cons x xs)
  obtain y ys where ys: "map text_of xs = y # ys"
    using cons.hyps by (cases xs) auto
  let ?rest = "join_comma (map text_of xs) @ CHR '']'' # r"
  have j: "join_comma (map text_of (x # xs)) @ CHR '']'' # r = text_of x @ CHR '','' # ?rest"
    by (simp add: ys)
  have "parse_value (text_of x @ CHR '','' # ?rest) = Some (x, CHR '','' # ?rest)"
    using cons.prems by simp
  moreover have "parse_elements ?rest = Some (xs, r)"
    using cons by simp
  ultimately show ?case
    unfolding j by (subst parse_elements.simps) (simp add: is_ws_def)
qed

lemma parse_members_join:
  assumes "\<forall>(k, v) \<in> set kvs. \<forall>r. value_end r \<longrightarrow> parse_value (text_of v @ r) = Some (v, r)"
    and "kvs \<noteq> []"
  shows "parse_members (join_comma (map member_text kvs) @ CHR ''}'' # r) = Some (kvs, r)"
  using assms(2,1)
proof (induction kvs rule: list_nonempty_induct)
  case (single kv)
  obtain k v where kv: "kv = (k, v)" by (cases kv)
  have "parse_value (text_of v @ CHR ''}'' # r) = Some (v, CHR ''}'' # r)"
    using single kv by simp
  moreover have "parse_string (tl (quote k) @ CHR '':'' # text_of v @ CHR ''}'' # r)
      = Some (k, CHR '':'' # text_of v @ CHR ''}'' # r)"
    by (rule parse_string_quote)
  moreover have "quote k = DQ # tl (quote k)"
    by (simp add: quote_def)
  ultimately show ?case
    by (subst parse_members.simps) (simp add: kv member_text_def is_ws_def quote_def)
next
  case (cons kv kvs)
  obtain k v where kv: "kv = (k, v)" by (cases kv)
  obtain y ys where ys: "map member_text kvs = y # ys"
    using cons.hyps by (cases kvs) auto
  let ?rest = "join_comma (map member_text kvs) @ CHR ''}'' # r"
  have "join_comma (map member_text (kv # kvs)) =
      member_text kv @ CHR '','' # join_comma (map member_text kvs)"
    by (simp add: ys)
  then have j: "join_comma (map member_text (kv # kvs)) @ CHR ''}'' # r =
      DQ # tl (quote k) @ CHR '':'' # text_of v @ CHR '','' # ?rest"
    by (simp add: kv member_text_def quote_def)
  have "parse_value (text_of v @ CHR '','' # ?rest) = Some (v, CHR '','' # ?rest)"
    using cons.prems kv by simp
  moreover have "parse_members ?rest = Some (kvs, r)"
    using cons by simp
  moreover have "parse_string (tl (quote k) @ CHR '':'' # text_of v @ CHR '','' # ?rest)
      = Some (k, CHR '':'' # text_of v @ CHR '','' # ?rest)"
    by (rule parse_string_quote)
  ultimately show ?case
    unfolding j by (subst parse_members.simps) (simp add: kv is_ws_def)
qed

lemma update_fresh: "k \<notin> fst ` set al \<Longrightarrow> AList.update k v al = al @ [(k, v)]"
  by (induction al) auto

lemma object_of_acc:
  "distinct (map fst (acc @ m)) \<Longrightarrow>
   foldl (\<lambda>obj (k, v). AList.update k v obj) acc m = acc @ m"
proof (induction m arbitrary: acc)
  case Nil
  then show ?case by simp
next
  case (Cons kv m)
  obtain k v where kv: "kv = (k, v)" by (cases kv)
  have "AList.update k v acc = acc @ [(k, v)]"
    using Cons.prems kv by (intro update_fresh) auto
  moreover have "distinct (map fst ((acc @ [(k, v)]) @ m))"
    using Cons.prems kv by simp
  ultimately show ?case
    using Cons.IH [of "acc @ [(k, v)]"] kv by simp
qed

lemma object_of_distinct: "distinct (map fst m) \<Longrightarrow> object_of m = m"
  using object_of_acc [of "[]" m] by (simp add: object_of_def)

lemma is_json_defined: "is_json v \<Longrightarrow> v \<noteq> JUndefined"
  by auto

lemma parse_value_text_of:
  "is_json v \<Longrightarrow> value_end r \<Longrightarrow> parse_value (text_of v @ r) = Some (v, r)"
proof (induction v arbitrary: r)
  case JUndefined
  then show ?case by simp
next
  case JNull
  show ?case
    by (subst parse_value.simps) (simp add: text_of_def is_ws_def parse_scalar_def)
next
  case (JBool b)
  show ?case
    by (subst parse_value.simps) (simp add: text_of_def is_ws_def parse_scalar_def)
next
  case (JNum i)
  obtain c cs where t: "number_text i = c # cs"
    using number_text_not_Nil [of i] by (cases "number_text i") auto
  with hd_number_text [of i] have c: "c = CHR ''-'' \<or> is_digit c" by simp
  have "parse_value (number_text i @ r) = parse_scalar (number_text i @ r)"
    using c by (subst parse_value.simps) (auto simp: t is_ws_def is_digit_def)
  then show ?case
    using JNum by (simp add: text_of_def parse_scalar_number_text)
next
  case (JStr s)
  have "parse_string (tl (quote s) @ r) = Some (s, r)"
    by (rule parse_string_quote)
  then show ?case
    by (subst parse_value.simps) (simp add: text_of_def is_ws_def quote_def)
next
  case (JArr xs)
  show ?case
  proof (cases "xs = []")
    case True
    then show ?thesis
      by (subst parse_value.simps) (simp add: text_of_JArr is_ws_def)
  next
    case False
    have el: "\<forall>x \<in> set xs. \<forall>r. value_end r \<longrightarrow> parse_value (text_of x @ r) = Some (x, r)"
      using JArr by simp
    let ?body = "join_comma (map text_of xs) @ CHR '']'' # r"
    have s: "start_ok ?body"
      using False by (intro start_ok_join) (simp_all add: hd_map start_ok_text_of)
    then obtain c cs where b: "?body = c # cs" and c: "\<not> is_ws c" "c \<noteq> CHR '']''"
      by (cases ?body) (auto simp: start_ok_def)
    have "parse_elements (c # cs) = Some (xs, r)"
      using parse_elements_join [OF el False, of r] b by simp
    then have "parse_value (CHR ''['' # c # cs) = Some (JArr xs, r)"
      using c by (subst parse_value.simps) (simp add: is_ws_def)
    then show ?thesis
      using b by (simp add: text_of_JArr)
  qed
next
  case (JObj kvs)
  have d: "distinct (map fst kvs)" and def: "\<forall>(k, v) \<in> set kvs. v \<noteq> JUndefined"
    using JObj.prems(1) by (auto dest: is_json_defined)
  show ?case
  proof (cases "kvs = []")
    case True
    then show ?thesis
      by (subst parse_value.simps) (simp add: text_of_def is_ws_def)
  next
    case False
    have el: "\<forall>(k, v) \<in> set kvs. \<forall>r. value_end r \<longrightarrow> parse_value (text_of v @ r) = Some (v, r)"
      using JObj by fastforce
    let ?body = "join_comma (map member_text kvs) @ CHR ''}'' # r"
    have "start_ok (hd (map member_text kvs))"
      using False by (cases kvs) (auto simp: member_text_def start_ok_def quote_def is_ws_def)
    then have s: "start_ok ?body"
      using False by (intro start_ok_join) simp_all
    then obtain c cs where b: "?body = c # cs" and c: "\<not> is_ws c" "c \<noteq> CHR ''}''"
      by (cases ?body) (auto simp: start_ok_def)
    have "parse_members (c # cs) = Some (kvs, r)"
      using parse_members_join [OF el False, of r] b by simp
    then have "parse_value (CHR ''{'' # c # cs) = Some (JObj kvs, r)"
      using c d by (subst parse_value.simps) (simp add: is_ws_def object_of_distinct)
    then show ?thesis
      using b by (simp add: text_of_JObj [OF def])
  qed
qed

lemma JSON_parse_stringify:
  assumes "is_json v"
  shows "\<exists>t. JSON_stringify v = Some t \<and> JSON_parse t = Some v"
proof -
  have "parse_value (text_of v @ []) = Some (v, [])"
    using assms by (intro parse_value_text_of) simp_all
  then have "JSON_parse (text_of v) = Some v"
    by (simp add: JSON_parse_def)
  then show ?thesis
    using assms by (auto simp: JSON_stringify_text_of dest: is_json_defined)
qed

subsection \<open>The canonical form\<close>

lemma insort_key_map_value:
  "insort_key fst (k, f v) (map (\<lambda>(k, v). (k, f v)) ys) =
   map (\<lambda>(k, v). (k, f v)) (insort_key fst (k, v) ys)"
  by (induction ys) auto

lemma sort_key_map_value:
  "sort_key fst (map (\<lambda>(k, v). (k, f v)) xs) = map (\<lambda>(k, v). (k, f v)) (sort_key fst xs)"
  by (induction xs) (auto simp: insort_key_map_value)

lemma sort_key_twice: "sort_key fst (sort_key fst xs) = sort_key fst xs"
  by (simp add: sort_key_id_if_sorted)

lemma canonical_eq_JUndefined [simp]: "canonical v = JUndefined \<longleftrightarrow> v = JUndefined"
  by (cases v) simp_all

lemma sortKeysRecursive_eq_JUndefined [simp]: "sortKeysRecursive v = JUndefined \<longleftrightarrow> v = JUndefined"
  by (cases v) simp_all

lemma stringify_members:
  "\<forall>(k, v) \<in> set ys. stringify v = JSON_stringify (canonical v) \<Longrightarrow>
   concat (map (\<lambda>(k, v). case stringify v of None \<Rightarrow> [] | Some t \<Rightarrow> [quote k @ '':'' @ t]) ys) =
   concat (map (\<lambda>(k, v). case JSON_stringify v of None \<Rightarrow> [] | Some t \<Rightarrow> [quote k @ '':'' @ t])
     (map (\<lambda>(k, v). (k, canonical v)) (filter (\<lambda>(k, v). v \<noteq> JUndefined) ys)))"
  by (induction ys) (auto simp: JSON_stringify_None split: option.splits)

lemma stringify_canonical: "stringify v = JSON_stringify (canonical v)"
proof (induction v)
  case (JArr xs)
  have "map (\<lambda>x. case stringify x of None \<Rightarrow> ''null'' | Some t \<Rightarrow> t) xs =
        map (\<lambda>x. case JSON_stringify x of None \<Rightarrow> ''null'' | Some t \<Rightarrow> t)
          (map (\<lambda>x. if x = JUndefined then JNull else canonical x) xs)"
    using JArr by (induction xs) auto
  then show ?case
    by (simp only: stringify.simps canonical.simps JSON_stringify.simps)
next
  case (JObj kvs)
  have "\<forall>(k, v) \<in> set (sort_key fst kvs). stringify v = JSON_stringify (canonical v)"
    using JObj by fastforce
  then show ?case
    by (simp add: stringify_members)
qed simp_all

lemma canonical_sortKeysRecursive: "canonical (sortKeysRecursive v) = canonical v"
proof (induction v)
  case (JArr xs)
  then show ?case by (induction xs) auto
next
  case (JObj kvs)
  let ?S = "\<lambda>(k, v). (k, sortKeysRecursive v)"
  let ?C = "\<lambda>(k, v). (k, canonical v)"
  let ?D = "\<lambda>(k, v). v \<noteq> JUndefined"
  have ih: "\<forall>(k, v) \<in> set ys. canonical (sortKeysRecursive v) = canonical v"
    if "set ys \<subseteq> set kvs" for ys
    using JObj that by fastforce
  have m: "map ?C (filter ?D (map ?S ys)) = map ?C (filter ?D ys)"
    if "\<forall>(k, v) \<in> set ys. canonical (sortKeysRecursive v) = canonical v" for ys
    using that by (induction ys) auto
  have "sort_key fst (sort_key fst (map ?S kvs)) = map ?S (sort_key fst kvs)"
    by (simp only: sort_key_twice sort_key_map_value)
  then have "canonical (sortKeysRecursive (JObj kvs)) = JObj (map ?C (filter ?D (map ?S (sort_key fst kvs))))"
    by simp
  also have "\<dots> = JObj (map ?C (filter ?D (sort_key fst kvs)))"
    using m [OF ih [of "sort_key fst kvs"]] by simp
  finally show ?case by simp
qed simp_all

lemma Encode_canonical: "Encode v = JSON_stringify (canonical v)"
  by (simp add: Encode_def stringify_canonical canonical_sortKeysRecursive)

lemma distinct_keys_sort_key: "distinct (map fst kvs) \<Longrightarrow> distinct (map fst (sort_key fst kvs))"
  by (simp add: distinct_map)

lemma is_json_canonical: "distinct_keys v \<Longrightarrow> v \<noteq> JUndefined \<Longrightarrow> is_json (canonical v)"
proof (induction v)
  case (JArr xs)
  then show ?case by (cases "canonical (JArr xs)") auto
next
  case (JObj kvs)
  let ?ys = "filter (\<lambda>(k, v). v \<noteq> JUndefined) (sort_key fst kvs)"
  have "distinct (map fst ?ys)"
    using JObj.prems by (intro distinct_map_filter distinct_keys_sort_key) simp
  then have 1: "distinct (map fst (map (\<lambda>(k, v). (k, canonical v)) ?ys))"
    by (simp only: map_value_keys)
  have "\<forall>(k, v) \<in> set kvs. v \<noteq> JUndefined \<longrightarrow> is_json (canonical v)"
    using JObj by fastforce
  then have 2: "\<forall>(k, v) \<in> set (map (\<lambda>(k, v). (k, canonical v)) ?ys). is_json v"
    by auto
  show ?case
    unfolding canonical.simps is_json.simps using 1 2 by blast
qed simp_all

lemma is_json_distinct_keys: "is_json v \<Longrightarrow> distinct_keys v"
  by (induction v) auto

lemma canonical_is_json: "is_json v \<Longrightarrow> canonical v = sortKeysRecursive v"
proof (induction v)
  case (JArr xs)
  then show ?case by (induction xs) auto
next
  case (JObj kvs)
  let ?S = "\<lambda>(k, v). (k, sortKeysRecursive v)"
  let ?C = "\<lambda>(k, v). (k, canonical v)"
  let ?D = "\<lambda>(k, v). v \<noteq> JUndefined"
  have d: "\<forall>(k, v) \<in> set kvs. v \<noteq> JUndefined \<and> canonical v = sortKeysRecursive v"
    using JObj by fastforce
  have "filter ?D ys = ys \<and> map ?C ys = map ?S ys" if "set ys \<subseteq> set kvs" for ys
    using that d by (induction ys) auto
  from this [of "sort_key fst kvs"] show ?case
    by (simp add: sort_key_map_value)
qed simp_all

lemma JSON_parse_Encode:
  assumes "distinct_keys v" and "v \<noteq> JUndefined"
  shows "\<exists>t. Encode v = Some t \<and> JSON_parse t = Some (canonical v)"
  using JSON_parse_stringify [OF is_json_canonical [OF assms]]
  by (simp add: Encode_canonical)

subsection \<open>What the parser returns\<close>

lemma distinct_object_acc:
  "distinct (map fst acc) \<Longrightarrow>
   distinct (map fst (foldl (\<lambda>obj (k, v). AList.update k v obj) acc m))"
  by (induction m arbitrary: acc) (auto simp: distinct_update)

lemma distinct_object_of: "distinct (map fst (object_of m))"
  by (simp add: object_of_def distinct_object_acc)

lemma set_update_subset: "set (AList.update k v al) \<subseteq> insert (k, v) (set al)"
  by (induction al) auto

lemma set_object_acc:
  "set (foldl (\<lambda>obj (k, v). AList.update k v obj) acc m) \<subseteq> set acc \<union> set m"
proof (induction m arbitrary: acc)
  case Nil
  then show ?case by simp
next
  case (Cons kv m)
  obtain k v where kv: "kv = (k, v)" by (cases kv)
  show ?case
    using Cons [of "AList.update k v acc"] set_update_subset [of k v acc] kv by auto
qed

lemma set_object_of: "set (object_of m) \<subseteq> set m"
  using set_object_acc [of "[]" m] by (simp add: object_of_def)

lemma is_json_object_of: "\<forall>(k, v) \<in> set m. is_json v \<Longrightarrow> is_json (JObj (object_of m))"
  using set_object_of [of m] by (auto simp: distinct_object_of)

lemma parse_scalar_is_json: "parse_scalar s = Some (v, r) \<Longrightarrow> is_json v"
  by (auto simp: parse_scalar_def parse_number_def Let_def split: if_splits)

lemma parse_scalar_shorter: "parse_scalar s = Some (v, r) \<Longrightarrow> length r < length s"
proof -
  have d: "length (dropWhile is_digit t) < length t" if "takeWhile is_digit t \<noteq> []" for t
    using that by (cases t) (auto simp: less_Suc_eq_le length_dropWhile_le split: if_splits)
  assume "parse_scalar s = Some (v, r)"
  then show ?thesis
    using d [of s] d [of "tl s"]
    by (cases s) (auto simp: parse_scalar_def parse_number_def Let_def split: if_splits)
qed


lemma parse_value_Some:
  assumes "parse_value s = Some (v, r)"
  shows "(v = JObj [] \<and> length r < length s)
       \<or> (\<exists>m s'. v = JObj (object_of m) \<and> parse_members s' = Some (m, r) \<and> length s' < length s)
       \<or> (v = JArr [] \<and> length r < length s)
       \<or> (\<exists>vs s'. v = JArr vs \<and> parse_elements s' = Some (vs, r) \<and> length s' < length s)
       \<or> (\<exists>t. v = JStr t \<and> length r < length s)
       \<or> (\<exists>s'. parse_scalar s' = Some (v, r) \<and> length s' \<le> length s)"
proof (cases "skip_ws s")
  case Nil
  with assms show ?thesis
    by (subst (asm) parse_value.simps) simp
next
  case (Cons c r0)
  note s = Cons
  have l0: "length r0 < length s" "length (c # r0) \<le> length s"
    using skip_ws_length [of s] s by simp_all
  consider (obj) "c = CHR ''{''" | (arr) "c = CHR ''[''" | (str) "c = DQ"
    | (scalar) "c \<noteq> CHR ''{''" "c \<noteq> CHR ''[''" "c \<noteq> DQ"
    by blast
  then show ?thesis
  proof cases
    case obj
    show ?thesis
    proof (cases "skip_ws r0")
      case Nil
      with assms s obj show ?thesis
        by (subst (asm) parse_value.simps) simp
    next
      case (Cons c' r')
      have l1: "length r' < length r0" "length (c' # r') \<le> length r0"
        using skip_ws_length [of r0] Cons by simp_all
      show ?thesis
      proof (cases "c' = CHR ''}''")
        case True
        with assms s obj Cons have "v = JObj []" "r = r'"
          by (subst (asm) parse_value.simps, simp)+
        with l0 l1 show ?thesis by simp
      next
        case False
        with assms s obj Cons obtain m where
          "parse_members (c' # r') = Some (m, r)" "v = JObj (object_of m)"
          by (subst (asm) parse_value.simps) (auto split: option.splits)
        moreover have "length (c' # r') < length s"
          using l0 l1 by simp
        ultimately show ?thesis by blast
      qed
    qed
  next
    case arr
    show ?thesis
    proof (cases "skip_ws r0")
      case Nil
      with assms s arr show ?thesis
        by (subst (asm) parse_value.simps) simp
    next
      case (Cons c' r')
      have l1: "length r' < length r0" "length (c' # r') \<le> length r0"
        using skip_ws_length [of r0] Cons by simp_all
      show ?thesis
      proof (cases "c' = CHR '']''")
        case True
        with assms s arr Cons have "v = JArr []" "r = r'"
          by (subst (asm) parse_value.simps, simp)+
        with l0 l1 show ?thesis by simp
      next
        case False
        with assms s arr Cons obtain vs where
          "parse_elements (c' # r') = Some (vs, r)" "v = JArr vs"
          by (subst (asm) parse_value.simps) (auto split: option.splits)
        moreover have "length (c' # r') < length s"
          using l0 l1 by simp
        ultimately show ?thesis by blast
      qed
    qed
  next
    case str
    with assms s obtain t where "parse_string r0 = Some (t, r)" "v = JStr t"
      by (subst (asm) parse_value.simps) (auto split: option.splits)
    with l0 parse_string_length [of r0 t r] show ?thesis by simp
  next
    case scalar
    with assms s have "parse_scalar (c # r0) = Some (v, r)"
      by (subst (asm) parse_value.simps) simp
    with l0 show ?thesis by blast
  qed
qed

lemma parse_elements_Some:
  assumes "parse_elements s = Some (vs, r)"
  shows "\<exists>v r0. parse_value s = Some (v, r0) \<and>
           ((vs = [v] \<and> length r < length r0)
          \<or> (\<exists>r' vs'. vs = v # vs' \<and> parse_elements r' = Some (vs', r) \<and> length r' < length s))"
proof -
  from assms obtain v r0 where v: "parse_value s = Some (v, r0)"
    by (subst (asm) parse_elements.simps) (auto split: option.splits)
  from assms v obtain c r' where c: "skip_ws r0 = c # r'"
    by (subst (asm) parse_elements.simps) (auto split: list.splits)
  have l: "length r' < length r0"
    using c by (rule skip_ws_Cons_length)
  from assms v c have "(c = CHR '']'' \<and> vs = [v] \<and> r = r')
      \<or> (c = CHR '','' \<and> length r' < length s \<and>
          (\<exists>vs'. parse_elements r' = Some (vs', r) \<and> vs = v # vs'))"
    by (subst (asm) parse_elements.simps) (auto split: if_splits option.splits)
  with v l show ?thesis by blast
qed

lemma parse_members_Some:
  assumes "parse_members s = Some (m, r)"
  shows "\<exists>k v s' r0. parse_value s' = Some (v, r0) \<and> length s' < length s \<and>
           ((m = [(k, v)] \<and> length r < length r0)
          \<or> (\<exists>r' m'. m = (k, v) # m' \<and> parse_members r' = Some (m', r) \<and> length r' < length s))"
proof -
  from assms obtain c r1 where c: "skip_ws s = c # r1" "c = DQ"
    by (subst (asm) parse_members.simps) (auto split: list.splits if_splits)
  from assms c obtain k r2 where k: "parse_string r1 = Some (k, r2)"
    by (subst (asm) parse_members.simps) (auto split: option.splits)
  from assms c k obtain c1 s' where c1: "skip_ws r2 = c1 # s'" "c1 = CHR '':''"
    by (subst (asm) parse_members.simps) (auto split: list.splits if_splits)
  from assms c k c1 obtain v r0 where v: "parse_value s' = Some (v, r0)"
    by (subst (asm) parse_members.simps) (auto split: option.splits)
  from assms c k c1 v obtain c3 r' where c3: "skip_ws r0 = c3 # r'"
    by (subst (asm) parse_members.simps) (auto split: list.splits)
  have l: "length s' < length s"
    using skip_ws_Cons_length [OF c(1)] parse_string_length [OF k] skip_ws_Cons_length [OF c1(1)]
    by simp
  have l': "length r' < length r0"
    using c3 by (rule skip_ws_Cons_length)
  from assms c k c1 v c3 have "(c3 = CHR ''}'' \<and> m = [(k, v)] \<and> r = r')
      \<or> (c3 = CHR '','' \<and> length r' < length s \<and>
          (\<exists>m'. parse_members r' = Some (m', r) \<and> m = (k, v) # m'))"
    by (subst (asm) parse_members.simps) (auto split: if_splits option.splits)
  with v l l' show ?thesis by blast
qed

lemma parse_results:
  "(\<forall>v r. parse_value s = Some (v, r) \<longrightarrow> is_json v \<and> length r < length s) \<and>
   (\<forall>vs r. parse_elements s = Some (vs, r) \<longrightarrow> (\<forall>v \<in> set vs. is_json v) \<and> length r < length s) \<and>
   (\<forall>m r. parse_members s = Some (m, r) \<longrightarrow> (\<forall>(k, v) \<in> set m. is_json v) \<and> length r < length s)"
proof (induction "length s" arbitrary: s rule: less_induct)
  case less
  have pv: "is_json v \<and> length r < length s" if "parse_value s = Some (v, r)" for v r
    using parse_value_Some [OF that]
  proof (elim disjE exE conjE)
    fix m s'
    assume a: "v = JObj (object_of m)" "parse_members s' = Some (m, r)" "length s' < length s"
    then have "\<forall>(k, v) \<in> set m. is_json v" "length r < length s'"
      using less [of s'] by blast+
    then show ?thesis
      using a is_json_object_of [of m] by simp
  next
    fix vs s'
    assume "v = JArr vs" "parse_elements s' = Some (vs, r)" "length s' < length s"
    then show ?thesis
      using less [of s'] by auto
  next
    fix s'
    assume "parse_scalar s' = Some (v, r)" "length s' \<le> length s"
    then show ?thesis
      using parse_scalar_is_json [of s' v r] parse_scalar_shorter [of s' v r] by simp
  qed simp_all
  have pe: "(\<forall>v \<in> set vs. is_json v) \<and> length r < length s"
    if "parse_elements s = Some (vs, r)" for vs r
  proof -
    from parse_elements_Some [OF that] obtain v r0 where
      v: "parse_value s = Some (v, r0)" and
      c: "(vs = [v] \<and> length r < length r0)
          \<or> (\<exists>r' vs'. vs = v # vs' \<and> parse_elements r' = Some (vs', r) \<and> length r' < length s)"
      by blast
    from c show ?thesis
    proof (elim disjE exE conjE)
      assume "vs = [v]" "length r < length r0"
      then show ?thesis using pv [OF v] by simp
    next
      fix r' vs'
      assume "vs = v # vs'" "parse_elements r' = Some (vs', r)" "length r' < length s"
      then show ?thesis using pv [OF v] less [of r'] by auto
    qed
  qed
  have pm: "(\<forall>(k, v) \<in> set m. is_json v) \<and> length r < length s"
    if "parse_members s = Some (m, r)" for m r
  proof -
    from parse_members_Some [OF that] obtain k v s' r0 where
      v: "parse_value s' = Some (v, r0)" and l: "length s' < length s" and
      c: "(m = [(k, v)] \<and> length r < length r0)
          \<or> (\<exists>r' m'. m = (k, v) # m' \<and> parse_members r' = Some (m', r) \<and> length r' < length s)"
      by blast
    have jv: "is_json v" "length r0 < length s'"
      using less [OF l] v by auto
    from c show ?thesis
    proof (elim disjE exE conjE)
      assume "m = [(k, v)]" "length r < length r0"
      then show ?thesis using jv l by simp
    next
      fix r' m'
      assume "m = (k, v) # m'" "parse_members r' = Some (m', r)" "length r' < length s"
      then show ?thesis using jv less [of r'] by auto
    qed
  qed
  show ?case
    using pv pe pm by blast
qed

lemma parse_value_is_json: "parse_value s = Some (v, r) \<Longrightarrow> is_json v"
  using parse_results [of s] by blast

lemma parse_value_shorter: "parse_value s = Some (v, r) \<Longrightarrow> length r < length s"
  using parse_results [of s] by blast

lemma JSON_parse_is_json: "JSON_parse s = Some v \<Longrightarrow> is_json v"
  by (auto simp: JSON_parse_def split: option.splits if_splits dest: parse_value_is_json)

lemma parse_elements_unguarded:
  "parse_elements s =
     (case parse_value s of
        None \<Rightarrow> None
      | Some (v, r) \<Rightarrow>
          (case skip_ws r of
             [] \<Rightarrow> None
           | c # r' \<Rightarrow>
               if c = CHR '','' then
                 (case parse_elements r' of
                    None \<Rightarrow> None
                  | Some (vs, r'') \<Rightarrow> Some (v # vs, r''))
               else if c = CHR '']'' then Some ([v], r')
               else None))"
proof -
  have "length r' < length s" if "parse_value s = Some (v, r)" "skip_ws r = c # r'" for v r c r'
    using parse_value_shorter [OF that(1)] skip_ws_Cons_length [OF that(2)] by simp
  then show ?thesis
    by (subst parse_elements.simps) (auto split: option.splits list.splits)
qed

lemma parse_members_unguarded:
  "parse_members s =
     (case skip_ws s of
        [] \<Rightarrow> None
      | c # r \<Rightarrow>
          if c \<noteq> DQ then None
          else
            (case parse_string r of
               None \<Rightarrow> None
             | Some (k, r1) \<Rightarrow>
                 (case skip_ws r1 of
                    [] \<Rightarrow> None
                  | c1 # r2 \<Rightarrow>
                      if c1 \<noteq> CHR '':'' then None
                      else
                        (case parse_value r2 of
                           None \<Rightarrow> None
                         | Some (v, r3) \<Rightarrow>
                             (case skip_ws r3 of
                                [] \<Rightarrow> None
                              | c3 # r4 \<Rightarrow>
                                  if c3 = CHR '','' then
                                    (case parse_members r4 of
                                       None \<Rightarrow> None
                                     | Some (m, r5) \<Rightarrow> Some ((k, v) # m, r5))
                                  else if c3 = CHR ''}'' then Some ([(k, v)], r4)
                                  else None)))))"
proof -
  have "length r4 < length s"
    if "skip_ws s = c # r" "parse_string r = Some (k, r1)" "skip_ws r1 = c1 # r2"
      "parse_value r2 = Some (v, r3)" "skip_ws r3 = c3 # r4" for c r k r1 c1 r2 v r3 c3 r4
    using skip_ws_Cons_length [OF that(1)] parse_string_length [OF that(2)]
      skip_ws_Cons_length [OF that(3)] parse_value_shorter [OF that(4)]
      skip_ws_Cons_length [OF that(5)] by simp
  then show ?thesis
    by (subst parse_members.simps) (auto split: option.splits list.splits)
qed

section \<open>Distinct records have distinct encodings\<close>

lemma Encode_eq_iff:
  assumes "distinct_keys v" and "distinct_keys w"
  shows "Encode v = Encode w \<longleftrightarrow> canonical v = canonical w"
proof
  assume "canonical v = canonical w"
  then show "Encode v = Encode w"
    by (simp add: Encode_canonical)
next
  assume e: "Encode v = Encode w"
  show "canonical v = canonical w"
  proof (cases "v = JUndefined \<or> w = JUndefined")
    case True
    with e have "canonical v = JUndefined" "canonical w = JUndefined"
      using JSON_stringify_None [of "canonical v"] JSON_stringify_None [of "canonical w"]
      by (auto simp: Encode_canonical)
    then show ?thesis by simp
  next
    case False
    then obtain t u where "Encode v = Some t" "JSON_parse t = Some (canonical v)"
      "Encode w = Some u" "JSON_parse u = Some (canonical w)"
      using JSON_parse_Encode [OF assms(1)] JSON_parse_Encode [OF assms(2)] by blast
    with e show ?thesis by simp
  qed
qed

lemma canonical_members_cong:
  "list_all2 (\<lambda>x y. fst x = fst y \<and> canonical (snd x) = canonical (snd y)) xs ys \<Longrightarrow>
   map (\<lambda>(k, v). (k, canonical v)) (filter (\<lambda>(k, v). v \<noteq> JUndefined) xs) =
   map (\<lambda>(k, v). (k, canonical v)) (filter (\<lambda>(k, v). v \<noteq> JUndefined) ys)"
proof (induction rule: list_all2_induct)
  case Nil
  then show ?case by simp
next
  case (Cons x xs y ys)
  obtain k v k' v' where x: "x = (k, v)" and y: "y = (k', v')"
    by (cases x, cases y) auto
  with Cons have "k = k'" "canonical v = canonical v'" by simp_all
  moreover from this have "v = JUndefined \<longleftrightarrow> v' = JUndefined"
    by (metis canonical_eq_JUndefined)
  ultimately show ?case
    using Cons.IH x y by auto
qed

lemma sort_asset_fields:
  "sort_key fst [(''ID'', a1), (''Model'', a2), (''Color'', a3), (''Owner'', a4),
                 (''Year'', a5), (''VIN'', a6), (''EngineType'', a7), (''Mileage'', a8)] =
   [(''Color'', a3), (''EngineType'', a7), (''ID'', a1), (''Mileage'', a8),
    (''Model'', a2), (''Owner'', a4), (''VIN'', a6), (''Year'', a5)]"
  by simp

lemma map_of_canonical_members:
  "distinct (map fst ys) \<Longrightarrow>
   map_of (map (\<lambda>(k, v). (k, canonical v)) (filter (\<lambda>(k, v). v \<noteq> JUndefined) ys)) k =
   (case map_of ys k of None \<Rightarrow> None
    | Some v \<Rightarrow> if v = JUndefined then None else Some (canonical v))"
  by (induction ys) (auto simp: image_iff split: option.splits)

lemma map_of_sort_key: "distinct (map fst kvs) \<Longrightarrow> map_of (sort_key fst kvs) = map_of kvs"
  by (subst map_of_inject_set) (simp_all add: distinct_keys_sort_key)

lemma get_property_canonical:
  assumes "distinct (map fst kvs)"
  shows "get_property (canonical (JObj kvs)) k = canonical (get_property (JObj kvs) k)"
  using assms
  by (simp add: map_of_canonical_members distinct_keys_sort_key map_of_sort_key split: option.splits)

lemma get_property_asset_object:
  "get_property (asset_object a1 a2 a3 a4 a5 a6 a7 a8) k =
     (if k = ''ID'' then a1 else if k = ''Model'' then a2 else if k = ''Color'' then a3
      else if k = ''Owner'' then a4 else if k = ''Year'' then a5 else if k = ''VIN'' then a6
      else if k = ''EngineType'' then a7 else if k = ''Mileage'' then a8 else JUndefined)"
  by (simp add: asset_object_def)

text \<open>
  The canonical form of a string, a number, a boolean or \<^verbatim>\<open>null\<close> is the value itself, so
  for the attributes of a car "the same canonical form" below is "the same value".
\<close>

lemma canonical_scalar:
  "canonical (JStr s) = JStr s" "canonical (JNum n) = JNum n" "canonical (JBool b) = JBool b"
  "canonical JNull = JNull" "canonical JUndefined = JUndefined"
  by simp_all

text \<open>
  C2. The encoding is a function of the record, and it is injective on asset records:
  two records built by the object literal of \<^verbatim>\<open>CreateGarageCarAsset\<close> have the same
  encoding exactly when each of the eight fields has the same content in both (the same
  canonical form: the same value, up to the order of the properties inside a value that
  is itself an object, and \<^verbatim>\<open>undefined\<close> only with \<^verbatim>\<open>undefined\<close>). So records that differ
  in a field never share their bytes, and equal records always do.
\<close>

theorem asset_encoding_injective:
  assumes "list_all distinct_keys [a1, a2, a3, a4, a5, a6, a7, a8]"
    and "list_all distinct_keys [b1, b2, b3, b4, b5, b6, b7, b8]"
  shows "Encode (asset_object a1 a2 a3 a4 a5 a6 a7 a8) =
         Encode (asset_object b1 b2 b3 b4 b5 b6 b7 b8) \<longleftrightarrow>
         canonical a1 = canonical b1 \<and> canonical a2 = canonical b2 \<and>
         canonical a3 = canonical b3 \<and> canonical a4 = canonical b4 \<and>
         canonical a5 = canonical b5 \<and> canonical a6 = canonical b6 \<and>
         canonical a7 = canonical b7 \<and> canonical a8 = canonical b8"
proof -
  let ?A = "asset_object a1 a2 a3 a4 a5 a6 a7 a8"
  let ?B = "asset_object b1 b2 b3 b4 b5 b6 b7 b8"
  have d: "distinct_keys ?A" "distinct_keys ?B"
    using assms by (simp_all add: asset_object_def)
  have e: "Encode ?A = Encode ?B \<longleftrightarrow> canonical ?A = canonical ?B"
    using d by (rule Encode_eq_iff)
  have g: "canonical (get_property ?A k) = canonical (get_property ?B k)"
    if "canonical ?A = canonical ?B" for k
  proof -
    obtain ka kb where k: "?A = JObj ka" "distinct (map fst ka)" "?B = JObj kb" "distinct (map fst kb)"
      by (simp add: asset_object_def)
    show ?thesis
      using get_property_canonical [OF k(2), of k] get_property_canonical [OF k(4), of k] that
      by (simp only: k(1) [symmetric] k(3) [symmetric])
  qed
  show ?thesis
  proof
    assume "Encode ?A = Encode ?B"
    then have c: "canonical ?A = canonical ?B"
      using e by simp
    show "canonical a1 = canonical b1 \<and> canonical a2 = canonical b2 \<and>
         canonical a3 = canonical b3 \<and> canonical a4 = canonical b4 \<and>
         canonical a5 = canonical b5 \<and> canonical a6 = canonical b6 \<and>
         canonical a7 = canonical b7 \<and> canonical a8 = canonical b8"
      using g [OF c, of "''ID''"] g [OF c, of "''Model''"] g [OF c, of "''Color''"]
        g [OF c, of "''Owner''"] g [OF c, of "''Year''"] g [OF c, of "''VIN''"]
        g [OF c, of "''EngineType''"] g [OF c, of "''Mileage''"]
      by (simp add: get_property_asset_object)
  next
    assume f: "canonical a1 = canonical b1 \<and> canonical a2 = canonical b2 \<and>
         canonical a3 = canonical b3 \<and> canonical a4 = canonical b4 \<and>
         canonical a5 = canonical b5 \<and> canonical a6 = canonical b6 \<and>
         canonical a7 = canonical b7 \<and> canonical a8 = canonical b8"
    have "map (\<lambda>(k, v). (k, canonical v)) (filter (\<lambda>(k, v). v \<noteq> JUndefined)
            [(''Color'', a3), (''EngineType'', a7), (''ID'', a1), (''Mileage'', a8),
             (''Model'', a2), (''Owner'', a4), (''VIN'', a6), (''Year'', a5)]) =
          map (\<lambda>(k, v). (k, canonical v)) (filter (\<lambda>(k, v). v \<noteq> JUndefined)
            [(''Color'', b3), (''EngineType'', b7), (''ID'', b1), (''Mileage'', b8),
             (''Model'', b2), (''Owner'', b4), (''VIN'', b6), (''Year'', b5)])"
      using f by (intro canonical_members_cong) simp
    then have "canonical ?A = canonical ?B"
      by (simp only: asset_object_def canonical.simps sort_asset_fields)
    then show "Encode ?A = Encode ?B"
      using e by simp
  qed
qed

theorem asset_encoding_injective_witness:
  "list_all distinct_keys [JStr ''assetcar1'', JStr ''Honda Accord'', JStr ''Silver'',
     JStr ''Ajith'', JNum 2023, JStr ''AB12CD345671'', JStr ''4-cylinder Diesel'', JNum 10] \<and>
   list_all distinct_keys [JStr ''assetcar1'', JStr ''Honda Accord'', JStr ''Silver'',
     JStr ''Emma'', JNum 2023, JStr ''AB12CD345671'', JStr ''4-cylinder Diesel'', JUndefined] \<and>
   Encode (asset_object (JStr ''assetcar1'') (JStr ''Honda Accord'') (JStr ''Silver'')
     (JStr ''Ajith'') (JNum 2023) (JStr ''AB12CD345671'') (JStr ''4-cylinder Diesel'') (JNum 10)) \<noteq>
   Encode (asset_object (JStr ''assetcar1'') (JStr ''Honda Accord'') (JStr ''Silver'')
     (JStr ''Emma'') (JNum 2023) (JStr ''AB12CD345671'') (JStr ''4-cylinder Diesel'') JUndefined)"
  using asset_encoding_injective [of "JStr ''assetcar1''" "JStr ''Honda Accord''" "JStr ''Silver''"
     "JStr ''Ajith''" "JNum 2023" "JStr ''AB12CD345671''" "JStr ''4-cylinder Diesel''" "JNum 10"
     "JStr ''assetcar1''" "JStr ''Honda Accord''" "JStr ''Silver''"
     "JStr ''Emma''" "JNum 2023" "JStr ''AB12CD345671''" "JStr ''4-cylinder Diesel''" JUndefined]
  by simp

section \<open>The transactions\<close>

subsection \<open>What Create and Update store\<close>

lemma JSON_parse_Nil: "JSON_parse [] = None"
  by (simp add: JSON_parse_def parse_value.simps)

lemma get_property_is_json:
  "is_json v \<Longrightarrow> get_property v k = JUndefined \<or> is_json (get_property v k)"
  by (cases v) (auto split: option.splits dest: map_of_SomeD)

lemma get_property_distinct_keys: "is_json v \<Longrightarrow> distinct_keys (get_property v k)"
  using get_property_is_json [of v k] by (auto dest: is_json_distinct_keys)

lemma canonical_get_property:
  "is_json v \<Longrightarrow> canonical (get_property v k) = sortKeysRecursive (get_property v k)"
  using get_property_is_json [of v k] by (auto simp: canonical_is_json)

lemma get_property_JStr_not_JNull: "get_property parsed k = JStr s \<Longrightarrow> parsed \<noteq> JNull"
  by auto

lemma get_property_update:
  "get_property (JObj (AList.update k v kvs)) k' =
     (if k' = k then v else get_property (JObj kvs) k')"
  by (simp add: update_conv')

lemma ledger_key_JStr [simp]: "ledger_key key_of (JStr s) = s"
  by (simp add: ledger_key_def)

lemma already_exists_JStr [simp]: "already_exists (JStr s) = AlreadyExists s"
  by (simp add: already_exists_def)

lemma does_not_exist_JStr [simp]: "does_not_exist (JStr s) = NotFound s"
  by (simp add: does_not_exist_def)

lemma asset_encoding:
  fixes parsed :: json and ID :: string
  assumes "is_json parsed"
  defines "asset \<equiv> asset_object (JStr ID)
     (get_property parsed ''Model'') (get_property parsed ''Color'')
     (get_property parsed ''Owner'') (get_property parsed ''Year'')
     (get_property parsed ''VIN'') (get_property parsed ''EngineType'')
     (get_property parsed ''Mileage'')"
  shows "\<exists>bytes stored. Encode asset = Some bytes \<and> bytes \<noteq> [] \<and>
           JSON_parse bytes = Some (JObj stored) \<and>
           get_property (JObj stored) ''ID'' = JStr ID \<and>
           (\<forall>k. k \<noteq> ''ID'' \<longrightarrow> get_property (JObj stored) k =
              (if k \<in> set field_names then sortKeysRecursive (get_property parsed k)
               else JUndefined))"
proof -
  obtain kvs where kvs: "asset = JObj kvs" and d: "distinct (map fst kvs)"
    by (simp add: asset_def asset_object_def)
  have dk: "distinct_keys asset"
    using assms(1) by (simp add: asset_def asset_object_def get_property_distinct_keys)
  then obtain bytes where b: "Encode asset = Some bytes" "JSON_parse bytes = Some (canonical asset)"
    using JSON_parse_Encode [of asset] kvs by auto
  obtain stored where s: "canonical asset = JObj stored"
    by (simp add: kvs)
  have g: "get_property (JObj stored) k = canonical (get_property asset k)" for k
    using get_property_canonical [OF d, of k] s kvs by simp
  have "get_property (JObj stored) ''ID'' = JStr ID"
    by (simp only: g) (simp add: asset_def get_property_asset_object)
  moreover have "get_property (JObj stored) k =
      (if k \<in> set field_names then sortKeysRecursive (get_property parsed k) else JUndefined)"
    if "k \<noteq> ''ID''" for k
    using that assms(1)
    by (simp only: g)
       (simp add: asset_def get_property_asset_object field_names_def canonical_get_property)
  moreover have "bytes \<noteq> []"
    using b(2) by (auto simp: JSON_parse_Nil)
  ultimately show ?thesis
    using b s by auto
qed

lemma car7_parse: "JSON_parse car7_json = Some car7_parsed"
  by code_simp

lemma car7_ID: "get_property car7_parsed ''ID'' = JStr ''car7''"
  by (simp add: car7_parsed_def)

lemma car7_stored_parse:
  "JSON_parse car7_stored = Some (JObj [(''ID'', JStr ''car7''), (''Owner'', JStr ''Ajith'')])"
  by code_simp

subsection \<open>Create\<close>

text \<open>
  C3. When the input of \<^verbatim>\<open>CreateGarageCarAsset\<close> is the JSON text of a record whose
  \<^verbatim>\<open>ID\<close> is a string under which the state holds nothing, the transaction succeeds, and
  \<^verbatim>\<open>ReadGarageCarAsset\<close> of that \<^verbatim>\<open>ID\<close> in the new state returns a text whose record has,
  under each of the eight field names, the value of the input (for a value that is
  itself an object, with its properties in the order of their names; a field the input
  lacks is \<^verbatim>\<open>undefined\<close> in both).
\<close>

theorem Create_then_Read:
  assumes "JSON_parse json = Some parsed"
    and "get_property parsed ''ID'' = JStr ID"
    and "st ID = []"
  shows "\<exists>st' text stored.
           CreateGarageCarAsset key_of st json = (st', Inr ()) \<and>
           ReadGarageCarAsset st' ID = Inr text \<and>
           JSON_parse text = Some stored \<and>
           (\<forall>k \<in> set field_names.
              get_property stored k = sortKeysRecursive (get_property parsed k))"
proof -
  have j: "is_json parsed"
    using assms(1) by (rule JSON_parse_is_json)
  from asset_encoding [OF j, of ID] obtain bytes stored where
    b: "Encode (asset_object (JStr ID)
          (get_property parsed ''Model'') (get_property parsed ''Color'')
          (get_property parsed ''Owner'') (get_property parsed ''Year'')
          (get_property parsed ''VIN'') (get_property parsed ''EngineType'')
          (get_property parsed ''Mileage'')) = Some bytes"
    and n: "bytes \<noteq> []"
    and p: "JSON_parse bytes = Some (JObj stored)"
    and i: "get_property (JObj stored) ''ID'' = JStr ID"
    and f: "\<forall>k. k \<noteq> ''ID'' \<longrightarrow> get_property (JObj stored) k =
              (if k \<in> set field_names then sortKeysRecursive (get_property parsed k)
               else JUndefined)"
    by blast
  have c: "CreateGarageCarAsset key_of st json = (st(ID := bytes), Inr ())"
    using assms b get_property_JStr_not_JNull [OF assms(2)]
    by (simp add: CreateGarageCarAsset_def AssetGarageCarExists_def getState_def putState_def)
  have r: "ReadGarageCarAsset (st(ID := bytes)) ID = Inr bytes"
    using n by (simp add: ReadGarageCarAsset_def getState_def)
  have "get_property (JObj stored) k = sortKeysRecursive (get_property parsed k)"
    if "k \<in> set field_names" for k
  proof (cases "k = ''ID''")
    case True
    then show ?thesis using i assms(2) by simp
  next
    case False
    then show ?thesis using f that by simp
  qed
  with c r p show ?thesis by blast
qed

theorem Create_then_Read_witness:
  "JSON_parse car7_json = Some car7_parsed \<and>
   get_property car7_parsed ''ID'' = JStr ''car7'' \<and>
   empty_state ''car7'' = [] \<and>
   (\<exists>st' text stored.
      CreateGarageCarAsset empty_key empty_state car7_json = (st', Inr ()) \<and>
      ReadGarageCarAsset st' ''car7'' = Inr text \<and>
      JSON_parse text = Some stored \<and>
      get_property stored ''Owner'' = JStr ''Ajith'' \<and>
      get_property stored ''Model'' = JUndefined)"
proof -
  have a: "empty_state ''car7'' = []"
    by (simp add: empty_state_def)
  from Create_then_Read [OF car7_parse car7_ID, of empty_state empty_key, OF a]
  obtain st' out stored where
    "CreateGarageCarAsset empty_key empty_state car7_json = (st', Inr ())"
    "ReadGarageCarAsset st' ''car7'' = Inr out" "JSON_parse out = Some stored"
    "\<forall>k \<in> set field_names. get_property stored k = sortKeysRecursive (get_property car7_parsed k)"
    by blast
  moreover from this(4) have "get_property stored ''Owner'' = JStr ''Ajith''"
    "get_property stored ''Model'' = JUndefined"
    by (simp_all add: field_names_def car7_parsed_def)
  ultimately show ?thesis
    using car7_parse car7_ID a by blast
qed

text \<open>
  C4. For an input that is the JSON text of a record with a string \<^verbatim>\<open>ID\<close>: when the
  state holds a value under that \<^verbatim>\<open>ID\<close>, \<^verbatim>\<open>CreateGarageCarAsset\<close> fails with "already
  exists" and the state it leaves is the state it found, under every key; when the state
  holds nothing under that \<^verbatim>\<open>ID\<close>, it succeeds, and the new state differs from the old
  one in that key alone, which is the one key added to the stored keys.
\<close>

theorem Create_existing:
  assumes "JSON_parse json = Some parsed"
    and "get_property parsed ''ID'' = JStr ID"
  shows "(st ID \<noteq> [] \<longrightarrow>
            CreateGarageCarAsset key_of st json = (st, Inl (AlreadyExists ID))) \<and>
         (st ID = [] \<longrightarrow>
            (\<exists>bytes. bytes \<noteq> [] \<and>
               CreateGarageCarAsset key_of st json = (st(ID := bytes), Inr ()) \<and>
               stored_keys (st(ID := bytes)) = insert ID (stored_keys st)))"
proof -
  have j: "is_json parsed"
    using assms(1) by (rule JSON_parse_is_json)
  from asset_encoding [OF j, of ID] obtain bytes where
    b: "Encode (asset_object (JStr ID)
          (get_property parsed ''Model'') (get_property parsed ''Color'')
          (get_property parsed ''Owner'') (get_property parsed ''Year'')
          (get_property parsed ''VIN'') (get_property parsed ''EngineType'')
          (get_property parsed ''Mileage'')) = Some bytes"
    and n: "bytes \<noteq> []"
    by blast
  have "CreateGarageCarAsset key_of st json = (st, Inl (AlreadyExists ID))" if "st ID \<noteq> []"
    using assms that get_property_JStr_not_JNull [OF assms(2)]
    by (simp add: CreateGarageCarAsset_def AssetGarageCarExists_def getState_def)
  moreover have "CreateGarageCarAsset key_of st json = (st(ID := bytes), Inr ())" if "st ID = []"
    using assms b that get_property_JStr_not_JNull [OF assms(2)]
    by (simp add: CreateGarageCarAsset_def AssetGarageCarExists_def getState_def putState_def)
  moreover have "stored_keys (st(ID := bytes)) = insert ID (stored_keys st)"
    using n by (auto simp: stored_keys_def)
  ultimately show ?thesis
    using n by blast
qed

theorem Create_existing_witness:
  "JSON_parse car7_json = Some car7_parsed \<and>
   get_property car7_parsed ''ID'' = JStr ''car7'' \<and>
   CreateGarageCarAsset empty_key (empty_state(''car7'' := car7_stored)) car7_json =
     (empty_state(''car7'' := car7_stored), Inl (AlreadyExists ''car7'')) \<and>
   (\<exists>bytes. bytes \<noteq> [] \<and>
      CreateGarageCarAsset empty_key empty_state car7_json =
        (empty_state(''car7'' := bytes), Inr ()) \<and>
      stored_keys (empty_state(''car7'' := bytes)) = insert ''car7'' (stored_keys empty_state))"
  using Create_existing [OF car7_parse car7_ID, of "empty_state(''car7'' := car7_stored)" empty_key]
    Create_existing [OF car7_parse car7_ID, of empty_state empty_key] car7_parse car7_ID
  by (simp add: car7_stored_def empty_state_def)

subsection \<open>Update, Delete and Transfer of an asset that does not exist\<close>

text \<open>
  C5. When the state holds nothing under an \<^verbatim>\<open>ID\<close>, \<^verbatim>\<open>UpdateGarageCarAsset\<close> (of the JSON
  text of a record with that \<^verbatim>\<open>ID\<close>), \<^verbatim>\<open>DeleteGarageCarAsset\<close> and
  \<^verbatim>\<open>TransferGarageCarAsset\<close> each fail with "does not exist", and the state each leaves is
  the state it found: no key added, removed or changed.
\<close>

theorem absent_NotFound:
  assumes "st ID = []"
  shows "(\<forall>json parsed.
            JSON_parse json = Some parsed \<and> get_property parsed ''ID'' = JStr ID \<longrightarrow>
            UpdateGarageCarAsset key_of st json = (st, Inl (NotFound ID))) \<and>
         DeleteGarageCarAsset st ID = (st, Inl (NotFound ID)) \<and>
         (\<forall>newOwner. TransferGarageCarAsset st ID newOwner = (st, Inl (NotFound ID)))"
proof -
  have "UpdateGarageCarAsset key_of st json = (st, Inl (NotFound ID))"
    if "JSON_parse json = Some parsed" "get_property parsed ''ID'' = JStr ID" for json parsed
    using that assms get_property_JStr_not_JNull [OF that(2)]
    by (simp add: UpdateGarageCarAsset_def AssetGarageCarExists_def getState_def)
  moreover have "DeleteGarageCarAsset st ID = (st, Inl (NotFound ID))"
    using assms by (simp add: DeleteGarageCarAsset_def AssetGarageCarExists_def getState_def)
  moreover have "TransferGarageCarAsset st ID newOwner = (st, Inl (NotFound ID))" for newOwner
    using assms by (simp add: TransferGarageCarAsset_def ReadGarageCarAsset_def getState_def)
  ultimately show ?thesis by blast
qed

theorem absent_NotFound_witness:
  "empty_state ''car7'' = [] \<and>
   JSON_parse car7_json = Some car7_parsed \<and>
   get_property car7_parsed ''ID'' = JStr ''car7'' \<and>
   UpdateGarageCarAsset empty_key empty_state car7_json = (empty_state, Inl (NotFound ''car7'')) \<and>
   DeleteGarageCarAsset empty_state ''car7'' = (empty_state, Inl (NotFound ''car7'')) \<and>
   TransferGarageCarAsset empty_state ''car7'' ''Emma'' = (empty_state, Inl (NotFound ''car7''))"
proof -
  have a: "empty_state ''car7'' = []"
    by (simp add: empty_state_def)
  from absent_NotFound [of empty_state "''car7''" empty_key, OF a] car7_parse car7_ID show ?thesis
    using a by blast
qed

subsection \<open>Transfer\<close>

text \<open>
  C6. When the state holds under \<^verbatim>\<open>ID\<close> a text that decodes to a record,
  \<^verbatim>\<open>TransferGarageCarAsset\<close> returns the \<^verbatim>\<open>Owner\<close> of that record and changes the state
  under \<^verbatim>\<open>ID\<close> alone; a read of \<^verbatim>\<open>ID\<close> afterwards returns a text that decodes to a
  record whose \<^verbatim>\<open>Owner\<close> is the new owner and whose every other field has the value it
  had (for a value that is itself an object, with its properties in the order of their
  names).
\<close>

theorem Transfer_owner:
  assumes "JSON_parse (st ID) = Some (JObj kvs)"
  shows "\<exists>bytes kvs'.
           TransferGarageCarAsset st ID newOwner =
             (st(ID := bytes), Inr (get_property (JObj kvs) ''Owner'')) \<and>
           ReadGarageCarAsset (st(ID := bytes)) ID = Inr bytes \<and>
           JSON_parse bytes = Some (JObj kvs') \<and>
           get_property (JObj kvs') ''Owner'' = JStr newOwner \<and>
           (\<forall>k. k \<noteq> ''Owner'' \<longrightarrow>
              get_property (JObj kvs') k = sortKeysRecursive (get_property (JObj kvs) k))"
proof -
  let ?asset = "JObj (AList.update ''Owner'' (JStr newOwner) kvs)"
  have j: "is_json (JObj kvs)"
    using assms by (rule JSON_parse_is_json)
  then have d: "distinct (map fst (AList.update ''Owner'' (JStr newOwner) kvs))"
    by (simp add: distinct_update)
  have j': "is_json ?asset"
    using j d set_update_subset [of "''Owner''" "JStr newOwner" kvs] by auto
  then have "distinct_keys ?asset" "?asset \<noteq> JUndefined"
    by (rule is_json_distinct_keys, simp)
  from JSON_parse_Encode [OF this] obtain bytes where
    b: "Encode ?asset = Some bytes" "JSON_parse bytes = Some (canonical ?asset)"
    by blast
  obtain kvs' where s: "canonical ?asset = JObj kvs'"
    by simp
  have g: "get_property (JObj kvs') k = canonical (get_property ?asset k)" for k
    using get_property_canonical [OF d, of k] s by simp
  have n: "st ID \<noteq> []" "bytes \<noteq> []"
    using assms b(2) by (auto simp: JSON_parse_Nil)
  have t: "TransferGarageCarAsset st ID newOwner =
      (st(ID := bytes), Inr (get_property (JObj kvs) ''Owner''))"
    using assms b(1) n
    by (simp add: TransferGarageCarAsset_def ReadGarageCarAsset_def getState_def putState_def
        del: get_property.simps)
  have r: "ReadGarageCarAsset (st(ID := bytes)) ID = Inr bytes"
    using n by (simp add: ReadGarageCarAsset_def getState_def)
  have o: "get_property (JObj kvs') ''Owner'' = JStr newOwner"
    by (simp only: g get_property_update) simp
  have "get_property (JObj kvs') k = sortKeysRecursive (get_property (JObj kvs) k)"
    if "k \<noteq> ''Owner''" for k
    using that canonical_get_property [OF j, of k]
    by (simp only: g get_property_update) simp
  with t r b(2) s o show ?thesis by auto
qed

theorem Transfer_owner_witness:
  "JSON_parse ((empty_state(''car7'' := car7_stored)) ''car7'') =
     Some (JObj [(''ID'', JStr ''car7''), (''Owner'', JStr ''Ajith'')]) \<and>
   (\<exists>bytes kvs'.
      TransferGarageCarAsset (empty_state(''car7'' := car7_stored)) ''car7'' ''Emma'' =
        (empty_state(''car7'' := bytes), Inr (JStr ''Ajith'')) \<and>
      ReadGarageCarAsset (empty_state(''car7'' := bytes)) ''car7'' = Inr bytes \<and>
      JSON_parse bytes = Some (JObj kvs') \<and>
      get_property (JObj kvs') ''Owner'' = JStr ''Emma'' \<and>
      get_property (JObj kvs') ''ID'' = JStr ''car7'')"
proof -
  have p: "JSON_parse ((empty_state(''car7'' := car7_stored)) ''car7'') =
     Some (JObj [(''ID'', JStr ''car7''), (''Owner'', JStr ''Ajith'')])"
    using car7_stored_parse by simp
  from Transfer_owner [of "empty_state(''car7'' := car7_stored)" "''car7''"
      "[(''ID'', JStr ''car7''), (''Owner'', JStr ''Ajith'')]" "''Emma''", OF p]
  obtain bytes kvs' where
    t: "TransferGarageCarAsset (empty_state(''car7'' := car7_stored)) ''car7'' ''Emma'' =
        ((empty_state(''car7'' := car7_stored))(''car7'' := bytes),
         Inr (get_property (JObj [(''ID'', JStr ''car7''), (''Owner'', JStr ''Ajith'')]) ''Owner''))"
    and r: "ReadGarageCarAsset ((empty_state(''car7'' := car7_stored))(''car7'' := bytes)) ''car7'' = Inr bytes"
    and q: "JSON_parse bytes = Some (JObj kvs')"
    and o: "get_property (JObj kvs') ''Owner'' = JStr ''Emma''"
    and f: "\<forall>k. k \<noteq> ''Owner'' \<longrightarrow> get_property (JObj kvs') k =
         sortKeysRecursive (get_property (JObj [(''ID'', JStr ''car7''), (''Owner'', JStr ''Ajith'')]) k)"
    by blast
  have i: "get_property (JObj kvs') ''ID'' = JStr ''car7''"
    using f [rule_format, of "''ID''"] by simp
  have t': "TransferGarageCarAsset (empty_state(''car7'' := car7_stored)) ''car7'' ''Emma'' =
        (empty_state(''car7'' := bytes), Inr (JStr ''Ajith''))"
    using t by simp
  have r': "ReadGarageCarAsset (empty_state(''car7'' := bytes)) ''car7'' = Inr bytes"
    using r by simp
  have "\<exists>bytes kvs'.
      TransferGarageCarAsset (empty_state(''car7'' := car7_stored)) ''car7'' ''Emma'' =
        (empty_state(''car7'' := bytes), Inr (JStr ''Ajith'')) \<and>
      ReadGarageCarAsset (empty_state(''car7'' := bytes)) ''car7'' = Inr bytes \<and>
      JSON_parse bytes = Some (JObj kvs') \<and>
      get_property (JObj kvs') ''Owner'' = JStr ''Emma'' \<and>
      get_property (JObj kvs') ''ID'' = JStr ''car7''"
    using t' r' q o i by (intro exI [of _ bytes] exI [of _ kvs'] conjI)
  with p show ?thesis by blast
qed

subsection \<open>Read\<close>

text \<open>
  C7, as amended. \<^verbatim>\<open>ReadGarageCarAsset\<close> fails with "does not exist" exactly when the
  state holds nothing under the \<^verbatim>\<open>ID\<close>; otherwise it returns the stored content as it is,
  as text, whether or not that text decodes as a record: it does not decode.
\<close>

theorem Read_verbatim:
  "(ReadGarageCarAsset st ID = Inl (NotFound ID) \<longleftrightarrow> st ID = []) \<and>
   ReadGarageCarAsset st ID = (if st ID = [] then Inl (NotFound ID) else Inr (st ID))"
  by (simp add: ReadGarageCarAsset_def getState_def)

text \<open>
  C7 as the claim states it fails on the ledger \<^verbatim>\<open>InitGarageCarLedger\<close> leaves: read as
  the claim words it, \<^verbatim>\<open>assetcar1\<close> is a record; the transaction returns the text. On a
  stored text with a blank in it, \<^verbatim>\<open>{ }\<close>, what the transaction returns is not the text
  of the decoded record either.
\<close>

theorem Read_decodes_counterexample:
  "ReadGarageCarAsset (fst (InitGarageCarLedger empty_state)) ''assetcar1'' = Inr assetcar1_text \<and>
   Read_as_specified (fst (InitGarageCarLedger empty_state)) ''assetcar1'' =
     Inr (JObj [(''Color'', JStr ''Silver''), (''EngineType'', JStr ''4-cylinder Diesel''),
                (''ID'', JStr ''assetcar1''), (''Mileage'', JNum 10),
                (''Model'', JStr ''Honda Accord''), (''Owner'', JStr ''Ajith''),
                (''VIN'', JStr ''AB12CD345671''), (''Year'', JNum 2023)]) \<and>
   map_sum id JStr (ReadGarageCarAsset (fst (InitGarageCarLedger empty_state)) ''assetcar1'') \<noteq>
     Read_as_specified (fst (InitGarageCarLedger empty_state)) ''assetcar1'' \<and>
   ReadGarageCarAsset (empty_state(''car7'' := ''{ }'')) ''car7'' = Inr ''{ }'' \<and>
   Read_as_specified (empty_state(''car7'' := ''{ }'')) ''car7'' = Inr (JObj []) \<and>
   JSON_stringify (JObj []) = Some ''{}''"
  by code_simp

subsection \<open>ListAll\<close>

lemma collect_results_map:
  "collect_results entries allResults =
   allResults @ map (\<lambda>(key, strValue). decode_entry strValue) entries"
  by (induction entries arbitrary: allResults) auto

lemma is_json_decode_entry: "is_json (decode_entry s)"
  by (auto simp: decode_entry_def split: option.splits dest: JSON_parse_is_json)

lemma GetAllGarageCars_text:
  "\<exists>out. GetAllGarageCars st = Inr out \<and>
         JSON_parse out =
           Some (JArr (map (\<lambda>key. decode_entry (st key)) (sorted_list_of_set (stored_keys st))))"
proof -
  let ?results = "map (\<lambda>key. decode_entry (st key)) (sorted_list_of_set (stored_keys st))"
  have c: "collect_results (getStateByRange_all st) [] = ?results"
    by (simp add: collect_results_map getStateByRange_all_def comp_def)
  have "is_json (JArr ?results)"
    by (simp add: is_json_decode_entry)
  then obtain out where "JSON_stringify (JArr ?results) = Some out"
    "JSON_parse out = Some (JArr ?results)"
    using JSON_parse_stringify by blast
  then show ?thesis
    using c by (simp add: GetAllGarageCars_def)
qed

lemma within_model_examples:
  "within_model ''legacy'' \<and> within_model ''<car/>'' \<and> within_model car7_stored \<and>
   within_model assetcar1_text \<and>
   within_model ''[1.5]'' = False \<and> within_model ''[1e3]'' = False"
  by code_simp

text \<open>
  C8. On every state with finitely many stored keys, each of them with a text on which
  the parser of the model and \<^verbatim>\<open>JSON.parse\<close> agree, \<^verbatim>\<open>GetAllGarageCars\<close> succeeds, and
  the text it returns is one JSON array with one element for each stored key, in the
  order of the keys. The element of a key is the value its text parses to, and when the
  text does not parse, the string that is this very text. No entry is dropped, and no
  entry makes the call fail.
\<close>

theorem GetAllGarageCars_entries:
  assumes "finite (stored_keys st)"
    and "\<forall>key \<in> stored_keys st. within_model (st key)"
  shows "\<exists>text.
           GetAllGarageCars st = Inr text \<and>
           JSON_parse text =
             Some (JArr (map (\<lambda>key. case JSON_parse (st key) of
                                        Some parsed \<Rightarrow> parsed
                                      | None \<Rightarrow> JStr (st key))
                           (sorted_list_of_set (stored_keys st)))) \<and>
           set (sorted_list_of_set (stored_keys st)) = stored_keys st \<and>
           sorted (sorted_list_of_set (stored_keys st)) \<and>
           distinct (sorted_list_of_set (stored_keys st))"
proof -
  have "(\<lambda>key. decode_entry (st key)) =
        (\<lambda>key. case JSON_parse (st key) of Some parsed \<Rightarrow> parsed | None \<Rightarrow> JStr (st key))"
    by (simp add: decode_entry_def fun_eq_iff)
  then show ?thesis
    using GetAllGarageCars_text [of st] assms(1) by simp
qed

theorem GetAllGarageCars_entries_witness:
  "finite (stored_keys
     (empty_state(''car7'' := car7_stored, ''car3'' := ''legacy'', ''car5'' := ''<car/>''))) \<and>
   within_model car7_stored \<and> within_model ''legacy'' \<and> within_model ''<car/>'' \<and>
   JSON_parse ''legacy'' = None \<and> JSON_parse ''<car/>'' = None \<and>
   (\<exists>text.
      GetAllGarageCars
        (empty_state(''car7'' := car7_stored, ''car3'' := ''legacy'', ''car5'' := ''<car/>'')) =
        Inr text \<and>
      JSON_parse text =
        Some (JArr [JStr ''legacy'', JStr ''<car/>'',
                    JObj [(''ID'', JStr ''car7''), (''Owner'', JStr ''Ajith'')]]))"
proof -
  let ?st = "empty_state(''car7'' := car7_stored, ''car3'' := ''legacy'', ''car5'' := ''<car/>'')"
  have k: "stored_keys ?st = {''car3'', ''car5'', ''car7''}"
    by (auto simp: stored_keys_def car7_stored_def empty_state_def)
  then have f: "finite (stored_keys ?st)"
    by simp
  have l: "sorted_list_of_set (stored_keys ?st) = [''car3'', ''car5'', ''car7'']"
    by (simp add: k)
  have w: "within_model car7_stored" "within_model ''legacy''" "within_model ''<car/>''"
    by code_simp+
  have d: "JSON_parse ''legacy'' = None" "JSON_parse ''<car/>'' = None"
    by code_simp+
  have h: "\<forall>key \<in> stored_keys ?st. within_model (?st key)"
    using w by (simp add: k)
  from GetAllGarageCars_entries [OF f h] obtain out where
    "GetAllGarageCars ?st = Inr out"
    "JSON_parse out =
       Some (JArr (map (\<lambda>key. case JSON_parse (?st key) of
                                  Some parsed \<Rightarrow> parsed
                                | None \<Rightarrow> JStr (?st key))
                     (sorted_list_of_set (stored_keys ?st))))"
    by blast
  then have "GetAllGarageCars ?st = Inr out \<and>
      JSON_parse out =
        Some (JArr [JStr ''legacy'', JStr ''<car/>'',
                    JObj [(''ID'', JStr ''car7''), (''Owner'', JStr ''Ajith'')]])"
    by (simp only: l) (simp add: d car7_stored_parse)
  with f w d show ?thesis by blast
qed

subsection \<open>Bootstrap\<close>

lemma Encode_not_Nil: "Encode v \<noteq> Some []"
  by (cases "canonical v") (simp_all add: Encode_canonical number_text_not_Nil quote_def)

text \<open>
  C9. \<^verbatim>\<open>InitGarageCarLedger\<close> stores the encodings of its two cars under their \<^verbatim>\<open>ID\<close>s
  on every state, whatever the state held there: it has no check, and a second run
  writes the same two values again. The two values are the ones
  \<^verbatim>\<open>CreateGarageCarAsset\<close> stores for the same records. After it has run on the empty
  state, \<^verbatim>\<open>GetAllGarageCars\<close> returns an array of exactly the two cars, each with the
  values the source gives it.
\<close>

theorem Bootstrap_seeds:
  "\<exists>car1 car2 e1 e2 out.
     seed_assets = [car1, car2] \<and> Encode car1 = Some e1 \<and> Encode car2 = Some e2 \<and>
     (\<forall>st. InitGarageCarLedger st = (st(''assetcar1'' := e1, ''assetcar2'' := e2), Inr ())) \<and>
     (\<forall>st. InitGarageCarLedger (fst (InitGarageCarLedger st)) = InitGarageCarLedger st) \<and>
     (\<forall>key_of.
        CreateGarageCarAsset key_of empty_state e1 = (empty_state(''assetcar1'' := e1), Inr ())) \<and>
     (\<forall>key_of.
        CreateGarageCarAsset key_of (empty_state(''assetcar1'' := e1)) e2 =
          (empty_state(''assetcar1'' := e1, ''assetcar2'' := e2), Inr ())) \<and>
     GetAllGarageCars (fst (InitGarageCarLedger empty_state)) = Inr out \<and>
     JSON_parse out = Some (JArr [sortKeysRecursive car1, sortKeysRecursive car2]) \<and>
     (\<forall>k. get_property (sortKeysRecursive car1) k = get_property car1 k) \<and>
     (\<forall>k. get_property (sortKeysRecursive car2) k = get_property car2 k)"
proof -
  obtain car1 car2 where s: "seed_assets = [car1, car2]"
    and c1: "car1 = JObj [(''ID'', JStr ''assetcar1''), (''Model'', JStr ''Honda Accord''),
            (''Color'', JStr ''Silver''), (''Owner'', JStr ''Ajith''), (''Year'', JNum 2023),
            (''VIN'', JStr ''AB12CD345671''), (''EngineType'', JStr ''4-cylinder Diesel''),
            (''Mileage'', JNum 10)]"
    and c2: "car2 = JObj [(''ID'', JStr ''assetcar2''), (''Model'', JStr ''Toyota Camry''),
            (''Color'', JStr ''White''), (''Owner'', JStr ''Emma''), (''Year'', JNum 2019),
            (''VIN'', JStr ''AB12CD345678''), (''EngineType'', JStr ''6-cylinder Petrol''),
            (''Mileage'', JNum 11)]"
    by (simp add: seed_assets_def)
  have j: "is_json car1" "is_json car2"
    by (simp_all add: c1 c2)
  have u: "car1 \<noteq> JUndefined" "car2 \<noteq> JUndefined"
    by (simp_all add: c1 c2)
  obtain e1 where e1: "Encode car1 = Some e1" "JSON_parse e1 = Some (canonical car1)"
    using JSON_parse_Encode [OF is_json_distinct_keys [OF j(1)] u(1)] by blast
  obtain e2 where e2: "Encode car2 = Some e2" "JSON_parse e2 = Some (canonical car2)"
    using JSON_parse_Encode [OF is_json_distinct_keys [OF j(2)] u(2)] by blast
  have k1: "canonical car1 = sortKeysRecursive car1" "canonical car2 = sortKeysRecursive car2"
    using j by (simp_all only: canonical_is_json)
  have n: "e1 \<noteq> []" "e2 \<noteq> []"
    using e1(1) e2(1) Encode_not_Nil by metis+
  have g1: "get_property (sortKeysRecursive car1) k = get_property car1 k" for k
    by (simp add: c1)
  have g2: "get_property (sortKeysRecursive car2) k = get_property car2 k" for k
    by (simp add: c2)
  have init: "InitGarageCarLedger st = (st(''assetcar1'' := e1, ''assetcar2'' := e2), Inr ())" for st
  proof -
    have "get_property car1 ''ID'' = JStr ''assetcar1''" "get_property car2 ''ID'' = JStr ''assetcar2''"
      by (simp_all add: c1 c2)
    then show ?thesis
      using e1(1) e2(1) by (simp add: InitGarageCarLedger_def s putState_def)
  qed
  have again: "InitGarageCarLedger (fst (InitGarageCarLedger st)) = InitGarageCarLedger st" for st
    by (simp add: init)
  have a1: "asset_object (JStr ''assetcar1'')
      (get_property (sortKeysRecursive car1) ''Model'') (get_property (sortKeysRecursive car1) ''Color'')
      (get_property (sortKeysRecursive car1) ''Owner'') (get_property (sortKeysRecursive car1) ''Year'')
      (get_property (sortKeysRecursive car1) ''VIN'') (get_property (sortKeysRecursive car1) ''EngineType'')
      (get_property (sortKeysRecursive car1) ''Mileage'') = car1"
    by (simp only: g1) (simp add: c1 asset_object_def)
  have a2: "asset_object (JStr ''assetcar2'')
      (get_property (sortKeysRecursive car2) ''Model'') (get_property (sortKeysRecursive car2) ''Color'')
      (get_property (sortKeysRecursive car2) ''Owner'') (get_property (sortKeysRecursive car2) ''Year'')
      (get_property (sortKeysRecursive car2) ''VIN'') (get_property (sortKeysRecursive car2) ''EngineType'')
      (get_property (sortKeysRecursive car2) ''Mileage'') = car2"
    by (simp only: g2) (simp add: c2 asset_object_def)
  have i1: "get_property (sortKeysRecursive car1) ''ID'' = JStr ''assetcar1''"
    by (simp only: g1) (simp add: c1)
  have i2: "get_property (sortKeysRecursive car2) ''ID'' = JStr ''assetcar2''"
    by (simp only: g2) (simp add: c2)
  have nn: "sortKeysRecursive car1 \<noteq> JNull" "sortKeysRecursive car2 \<noteq> JNull"
    by (simp_all add: c1 c2)
  have cr1: "CreateGarageCarAsset key_of empty_state e1 =
       (empty_state(''assetcar1'' := e1), Inr ())" for key_of
    using e1 nn(1) by (simp add: CreateGarageCarAsset_def k1 i1 a1 AssetGarageCarExists_def
        getState_def putState_def empty_state_def)
  have cr2: "CreateGarageCarAsset key_of (empty_state(''assetcar1'' := e1)) e2 =
       (empty_state(''assetcar1'' := e1, ''assetcar2'' := e2), Inr ())" for key_of
    using e2 nn(2) by (simp add: CreateGarageCarAsset_def k1 i2 a2 AssetGarageCarExists_def
        getState_def putState_def empty_state_def)
  let ?st = "empty_state(''assetcar1'' := e1, ''assetcar2'' := e2)"
  have "stored_keys ?st = {''assetcar1'', ''assetcar2''}"
    using n by (auto simp: stored_keys_def empty_state_def)
  then have keys: "sorted_list_of_set (stored_keys ?st) = [''assetcar1'', ''assetcar2'']"
    by simp
  obtain out where out: "GetAllGarageCars ?st = Inr out"
    "JSON_parse out = Some (JArr (map (\<lambda>key. decode_entry (?st key)) (sorted_list_of_set (stored_keys ?st))))"
    using GetAllGarageCars_text [of ?st] by blast
  have "JSON_parse out = Some (JArr [sortKeysRecursive car1, sortKeysRecursive car2])"
    using out(2) e1(2) e2(2) by (simp only: keys) (simp add: decode_entry_def k1)
  with s e1(1) e2(1) init again cr1 cr2 out(1) g1 g2 show ?thesis
    by (intro exI [of _ car1] exI [of _ car2] exI [of _ e1] exI [of _ e2] exI [of _ out]) simp
qed

subsection \<open>Missing and unknown fields\<close>

lemma stored_names:
  assumes "is_json (JObj stored)"
    and "\<forall>k. k \<notin> set field_names \<longrightarrow> get_property (JObj stored) k = JUndefined"
  shows "set (map fst stored) \<subseteq> set field_names"
proof
  fix k
  assume "k \<in> set (map fst stored)"
  then obtain v where v: "(k, v) \<in> set stored" by auto
  with assms(1) have "map_of stored k = Some v" "v \<noteq> JUndefined"
    by (auto dest: is_json_defined)
  then have "get_property (JObj stored) k \<noteq> JUndefined" by simp
  with assms(2) show "k \<in> set field_names" by blast
qed

lemma input_encoding:
  fixes parsed :: json
  assumes "is_json parsed"
  defines "asset \<equiv> asset_object (get_property parsed ''ID'')
     (get_property parsed ''Model'') (get_property parsed ''Color'')
     (get_property parsed ''Owner'') (get_property parsed ''Year'')
     (get_property parsed ''VIN'') (get_property parsed ''EngineType'')
     (get_property parsed ''Mileage'')"
  shows "\<exists>bytes stored. Encode asset = Some bytes \<and> bytes \<noteq> [] \<and>
           JSON_parse bytes = Some (JObj stored) \<and>
           (\<forall>k. get_property (JObj stored) k =
              (if k \<in> set field_names then sortKeysRecursive (get_property parsed k)
               else JUndefined))"
proof -
  obtain kvs where kvs: "asset = JObj kvs" and d: "distinct (map fst kvs)"
    by (simp add: asset_def asset_object_def)
  have dk: "distinct_keys asset"
    using assms(1) by (simp add: asset_def asset_object_def get_property_distinct_keys)
  then obtain bytes where b: "Encode asset = Some bytes" "JSON_parse bytes = Some (canonical asset)"
    using JSON_parse_Encode [of asset] kvs by auto
  obtain stored where s: "canonical asset = JObj stored"
    by (simp add: kvs)
  have g: "get_property (JObj stored) k = canonical (get_property asset k)" for k
    using get_property_canonical [OF d, of k] s kvs by simp
  have "get_property (JObj stored) k =
      (if k \<in> set field_names then sortKeysRecursive (get_property parsed k) else JUndefined)"
    for k
    using assms(1)
    by (simp only: g)
       (simp add: asset_def get_property_asset_object field_names_def canonical_get_property)
  moreover have "bytes \<noteq> []"
    using b(2) by (auto simp: JSON_parse_Nil)
  ultimately show ?thesis
    using b s by auto
qed

lemma anon_parse: "JSON_parse anon_json = Some anon_parsed"
  by code_simp

text \<open>
  C10, as amended. For every input that is the JSON text of a value other than \<^verbatim>\<open>null\<close>,
  whichever of the eight fields it lacks, the \<^verbatim>\<open>ID\<close> among them, and whichever others it
  has: \<^verbatim>\<open>CreateGarageCarAsset\<close> fails only when the state holds a value under the key of
  its \<^verbatim>\<open>ID\<close>, and \<^verbatim>\<open>UpdateGarageCarAsset\<close> only when it holds none; that check is the only
  failure of either, and the state is then unchanged. The one of the two that succeeds
  stores under that key a text that decodes to a record with no name beyond the eight,
  in which each of the eight has the value of the input and a field the input lacks is
  absent.
\<close>

theorem Create_Update_fields:
  assumes "JSON_parse json = Some parsed"
    and "parsed \<noteq> JNull"
  shows "\<exists>bytes stored.
           (if st (ledger_key key_of (get_property parsed ''ID'')) = []
            then CreateGarageCarAsset key_of st json =
                   (st(ledger_key key_of (get_property parsed ''ID'') := bytes), Inr ()) \<and>
                 UpdateGarageCarAsset key_of st json =
                   (st, Inl (does_not_exist (get_property parsed ''ID'')))
            else CreateGarageCarAsset key_of st json =
                   (st, Inl (already_exists (get_property parsed ''ID''))) \<and>
                 UpdateGarageCarAsset key_of st json =
                   (st(ledger_key key_of (get_property parsed ''ID'') := bytes), Inr ())) \<and>
           bytes \<noteq> [] \<and>
           JSON_parse bytes = Some (JObj stored) \<and>
           set (map fst stored) \<subseteq> set field_names \<and>
           (\<forall>k. get_property (JObj stored) k =
              (if k \<in> set field_names then sortKeysRecursive (get_property parsed k)
               else JUndefined))"
proof -
  let ?ID = "get_property parsed ''ID''"
  let ?key = "ledger_key key_of ?ID"
  have j: "is_json parsed"
    using assms(1) by (rule JSON_parse_is_json)
  from input_encoding [OF j] obtain bytes stored where
    b: "Encode (asset_object ?ID
          (get_property parsed ''Model'') (get_property parsed ''Color'')
          (get_property parsed ''Owner'') (get_property parsed ''Year'')
          (get_property parsed ''VIN'') (get_property parsed ''EngineType'')
          (get_property parsed ''Mileage'')) = Some bytes"
    and e: "bytes \<noteq> []"
    and p: "JSON_parse bytes = Some (JObj stored)"
    and g: "\<forall>k. get_property (JObj stored) k =
              (if k \<in> set field_names then sortKeysRecursive (get_property parsed k)
               else JUndefined)"
    by blast
  have n: "set (map fst stored) \<subseteq> set field_names"
    using JSON_parse_is_json [OF p] g by (intro stored_names) simp_all
  have "CreateGarageCarAsset key_of st json = (st(?key := bytes), Inr ()) \<and>
        UpdateGarageCarAsset key_of st json = (st, Inl (does_not_exist ?ID))" if "st ?key = []"
    using assms b that
    by (simp add: CreateGarageCarAsset_def UpdateGarageCarAsset_def AssetGarageCarExists_def
        getState_def putState_def Let_def)
  moreover have "CreateGarageCarAsset key_of st json = (st, Inl (already_exists ?ID)) \<and>
        UpdateGarageCarAsset key_of st json = (st(?key := bytes), Inr ())" if "st ?key \<noteq> []"
    using assms b that
    by (simp add: CreateGarageCarAsset_def UpdateGarageCarAsset_def AssetGarageCarExists_def
        getState_def putState_def Let_def)
  ultimately show ?thesis
    using e p n g by (intro exI [of _ bytes] exI [of _ stored]) simp
qed

theorem Create_Update_fields_witness:
  "JSON_parse anon_json = Some anon_parsed \<and>
   anon_parsed \<noteq> JNull \<and>
   get_property anon_parsed ''ID'' = JUndefined \<and>
   (\<exists>bytes stored.
      CreateGarageCarAsset empty_key empty_state anon_json = (empty_state([] := bytes), Inr ()) \<and>
      UpdateGarageCarAsset empty_key empty_state anon_json =
        (empty_state, Inl (NotFound ''undefined'')) \<and>
      CreateGarageCarAsset empty_key (empty_state([] := bytes)) anon_json =
        (empty_state([] := bytes), Inl (AlreadyExists ''undefined'')) \<and>
      UpdateGarageCarAsset empty_key (empty_state([] := bytes)) anon_json =
        (empty_state([] := bytes), Inr ()) \<and>
      bytes \<noteq> [] \<and>
      JSON_parse bytes = Some (JObj stored) \<and>
      set (map fst stored) \<subseteq> set field_names \<and>
      get_property (JObj stored) ''Tyres'' = JUndefined \<and>
      get_property (JObj stored) ''ID'' = JUndefined \<and>
      get_property (JObj stored) ''Owner'' = JStr ''Ajith'')"
proof -
  have i: "get_property anon_parsed ''ID'' = JUndefined"
    by (simp add: anon_parsed_def)
  have nn: "anon_parsed \<noteq> JNull"
    by (simp add: anon_parsed_def)
  have k: "ledger_key empty_key (get_property anon_parsed ''ID'') = []"
    by (simp add: i ledger_key_def empty_key_def)
  have m: "does_not_exist (get_property anon_parsed ''ID'') = NotFound ''undefined''"
    "already_exists (get_property anon_parsed ''ID'') = AlreadyExists ''undefined''"
    by (simp_all add: i does_not_exist_def already_exists_def)
  have a: "empty_state [] = []"
    by (simp add: empty_state_def)
  from Create_Update_fields [OF anon_parse nn, of empty_state empty_key]
  obtain bytes stored where
    c: "CreateGarageCarAsset empty_key empty_state anon_json = (empty_state([] := bytes), Inr ())"
    and u: "UpdateGarageCarAsset empty_key empty_state anon_json =
        (empty_state, Inl (NotFound ''undefined''))"
    and e: "bytes \<noteq> []"
    and p: "JSON_parse bytes = Some (JObj stored)"
    and n: "set (map fst stored) \<subseteq> set field_names"
    and g: "\<forall>k. get_property (JObj stored) k =
       (if k \<in> set field_names then sortKeysRecursive (get_property anon_parsed k) else JUndefined)"
    unfolding k m using a by auto
  from Create_Update_fields [OF anon_parse nn, of "empty_state([] := bytes)" empty_key]
  obtain bytes' where
    c': "CreateGarageCarAsset empty_key (empty_state([] := bytes)) anon_json =
        (empty_state([] := bytes), Inl (AlreadyExists ''undefined''))"
    and u': "UpdateGarageCarAsset empty_key (empty_state([] := bytes)) anon_json =
        ((empty_state([] := bytes))([] := bytes'), Inr ())"
    unfolding k m using e by auto
  have "bytes' = bytes"
    using c u' by (auto simp: CreateGarageCarAsset_def UpdateGarageCarAsset_def putState_def
        Let_def fun_eq_iff split: option.splits if_splits dest: fun_cong [of _ _ "[]"])
  then have u'': "UpdateGarageCarAsset empty_key (empty_state([] := bytes)) anon_json =
        (empty_state([] := bytes), Inr ())"
    using u' by simp
  have t: "get_property (JObj stored) ''Tyres'' = JUndefined"
    "get_property (JObj stored) ''ID'' = JUndefined"
    "get_property (JObj stored) ''Owner'' = JStr ''Ajith''"
    by (simp_all only: g) (simp_all add: field_names_def anon_parsed_def)
  have "\<exists>bytes stored.
      CreateGarageCarAsset empty_key empty_state anon_json = (empty_state([] := bytes), Inr ()) \<and>
      UpdateGarageCarAsset empty_key empty_state anon_json =
        (empty_state, Inl (NotFound ''undefined'')) \<and>
      CreateGarageCarAsset empty_key (empty_state([] := bytes)) anon_json =
        (empty_state([] := bytes), Inl (AlreadyExists ''undefined'')) \<and>
      UpdateGarageCarAsset empty_key (empty_state([] := bytes)) anon_json =
        (empty_state([] := bytes), Inr ()) \<and>
      bytes \<noteq> [] \<and>
      JSON_parse bytes = Some (JObj stored) \<and>
      set (map fst stored) \<subseteq> set field_names \<and>
      get_property (JObj stored) ''Tyres'' = JUndefined \<and>
      get_property (JObj stored) ''ID'' = JUndefined \<and>
      get_property (JObj stored) ''Owner'' = JStr ''Ajith''"
    using c u c' u'' e p n t by (intro exI [of _ bytes] exI [of _ stored] conjI)
  with anon_parse nn i show ?thesis by blast
qed

text \<open>
  C10 as the claim states it fails on the input \<^verbatim>\<open>null\<close>: it is JSON, no field of it is
  unknown, and both transactions fail on it, with neither of their own two errors.
\<close>

theorem Create_Update_null_counterexample:
  "JSON_parse ''null'' = Some JNull \<and>
   CreateGarageCarAsset empty_key empty_state ''null'' = (empty_state, Inl TypeError) \<and>
   UpdateGarageCarAsset empty_key empty_state ''null'' = (empty_state, Inl TypeError)"
proof -
  have "JSON_parse ''null'' = Some JNull"
    by (simp add: JSON_parse_def parse_value.simps is_ws_def parse_scalar_def)
  then show ?thesis
    by (simp add: CreateGarageCarAsset_def UpdateGarageCarAsset_def)
qed

end
